theory Spec2Isabelle
  imports Complex_Main "HOL-Library.Multiset"
begin

section \<open>LOCI outlier scores (pyod/models/loci.py)\<close>

text \<open>
  The detector works on numpy double-precision values. The model keeps the values of
  IEEE arithmetic that are not numbers (the two infinities and NaN), because numpy
  divisions by zero return them instead of raising, and computes on the finite values
  in exact real arithmetic: the rounding to 53 bits and the sign of zero are not
  modelled. Underflow and overflow are modelled for the product \<open>r * self._alpha\<close>, where
  a product rounded to zero leaves a point out of its own count.
\<close>

subsection \<open>numpy floating-point values\<close>

datatype npfloat = Num real | PInf | NInf | NaN

fun np_neg :: "npfloat \<Rightarrow> npfloat" where
  "np_neg (Num x) = Num (- x)"
| "np_neg PInf = NInf"
| "np_neg NInf = PInf"
| "np_neg NaN = NaN"

fun np_add :: "npfloat \<Rightarrow> npfloat \<Rightarrow> npfloat" where
  "np_add (Num x) (Num y) = Num (x + y)"
| "np_add NaN _ = NaN"
| "np_add _ NaN = NaN"
| "np_add PInf NInf = NaN"
| "np_add NInf PInf = NaN"
| "np_add PInf _ = PInf"
| "np_add NInf _ = NInf"
| "np_add (Num x) PInf = PInf"
| "np_add (Num x) NInf = NInf"

definition np_sub :: "npfloat \<Rightarrow> npfloat \<Rightarrow> npfloat" where
  "np_sub a b = np_add a (np_neg b)"

fun np_mul :: "npfloat \<Rightarrow> npfloat \<Rightarrow> npfloat" where
  "np_mul (Num x) (Num y) = Num (x * y)"
| "np_mul NaN _ = NaN"
| "np_mul _ NaN = NaN"
| "np_mul PInf (Num y) = (if 0 < y then PInf else if y < 0 then NInf else NaN)"
| "np_mul NInf (Num y) = (if 0 < y then NInf else if y < 0 then PInf else NaN)"
| "np_mul (Num x) PInf = (if 0 < x then PInf else if x < 0 then NInf else NaN)"
| "np_mul (Num x) NInf = (if 0 < x then NInf else if x < 0 then PInf else NaN)"
| "np_mul PInf PInf = PInf"
| "np_mul PInf NInf = NInf"
| "np_mul NInf PInf = NInf"
| "np_mul NInf NInf = PInf"

text \<open>Division never raises: \<open>x / 0\<close> is an infinity of the sign of \<open>x\<close>, and \<open>0 / 0\<close> is NaN.\<close>

fun np_div :: "npfloat \<Rightarrow> npfloat \<Rightarrow> npfloat" where
  "np_div (Num x) (Num y) =
     (if y \<noteq> 0 then Num (x / y)
      else if 0 < x then PInf else if x < 0 then NInf else NaN)"
| "np_div NaN _ = NaN"
| "np_div _ NaN = NaN"
| "np_div (Num x) PInf = Num 0"
| "np_div (Num x) NInf = Num 0"
| "np_div PInf (Num y) = (if 0 \<le> y then PInf else NInf)"
| "np_div NInf (Num y) = (if 0 \<le> y then NInf else PInf)"
| "np_div PInf PInf = NaN"
| "np_div PInf NInf = NaN"
| "np_div NInf PInf = NaN"
| "np_div NInf NInf = NaN"

fun np_sqrt :: "npfloat \<Rightarrow> npfloat" where
  "np_sqrt (Num x) = (if 0 \<le> x then Num (sqrt x) else NaN)"
| "np_sqrt PInf = PInf"
| "np_sqrt NInf = NaN"
| "np_sqrt NaN = NaN"

fun np_abs :: "npfloat \<Rightarrow> npfloat" where
  "np_abs (Num x) = Num \<bar>x\<bar>"
| "np_abs PInf = PInf"
| "np_abs NInf = PInf"
| "np_abs NaN = NaN"

text \<open>Every comparison with NaN is false.\<close>

fun np_lt :: "npfloat \<Rightarrow> npfloat \<Rightarrow> bool" where
  "np_lt (Num x) (Num y) = (x < y)"
| "np_lt NaN _ = False"
| "np_lt _ NaN = False"
| "np_lt _ NInf = False"
| "np_lt PInf _ = False"
| "np_lt NInf _ = True"
| "np_lt (Num x) PInf = True"

fun np_le :: "npfloat \<Rightarrow> npfloat \<Rightarrow> bool" where
  "np_le (Num x) (Num y) = (x \<le> y)"
| "np_le NaN _ = False"
| "np_le _ NaN = False"
| "np_le NInf _ = True"
| "np_le _ PInf = True"
| "np_le PInf _ = False"
| "np_le (Num x) NInf = False"

definition np_gt :: "npfloat \<Rightarrow> npfloat \<Rightarrow> bool" where
  "np_gt a b = np_lt b a"

definition np_ge :: "npfloat \<Rightarrow> npfloat \<Rightarrow> bool" where
  "np_ge a b = np_le b a"

text \<open>\<open>np.sort\<close> orders ascending and puts every NaN last.\<close>

fun sort_le :: "npfloat \<Rightarrow> npfloat \<Rightarrow> bool" where
  "sort_le _ NaN = True"
| "sort_le NaN _ = False"
| "sort_le a b = np_le a b"

fun np_insort :: "npfloat \<Rightarrow> npfloat list \<Rightarrow> npfloat list" where
  "np_insort x [] = [x]"
| "np_insort x (y # ys) = (if sort_le x y then x # y # ys else y # np_insort x ys)"

definition np_sort :: "npfloat list \<Rightarrow> npfloat list" where
  "np_sort xs = foldr np_insort xs []"

text \<open>\<open>np.count_nonzero\<close> of a boolean array.\<close>

definition count_nonzero :: "bool list \<Rightarrow> nat" where
  "count_nonzero bs = length (filter (\<lambda>b. b) bs)"

text \<open>\<open>np.nonzero(mask)[0]\<close>: the positions of the true entries, ascending.\<close>

definition nonzero :: "bool list \<Rightarrow> nat list" where
  "nonzero bs = filter (\<lambda>j. bs ! j) [0..<length bs]"

text \<open>
  \<open>np.mean\<close> and \<open>np.std\<close> (population standard deviation, \<open>ddof = 0\<close>) of an array
  of counts and of an array of floats. Both are NaN on an empty array.
\<close>

definition np_sum :: "npfloat list \<Rightarrow> npfloat" where
  "np_sum xs = foldl np_add (Num 0) xs"

definition np_mean :: "npfloat list \<Rightarrow> npfloat" where
  "np_mean xs = np_div (np_sum xs) (Num (real (length xs)))"

definition np_std :: "npfloat list \<Rightarrow> npfloat" where
  "np_std xs =
     (let m = np_mean xs;
          dev = map (\<lambda>x. let a = np_abs (np_sub x m) in np_mul a a) xs
      in np_sqrt (np_mean dev))"

definition of_counts :: "nat list \<Rightarrow> npfloat list" where
  "of_counts ns = map (\<lambda>n. Num (real n)) ns"

subsection \<open>The detector and its distance matrix\<close>

datatype error = IndexError | ValueError

text \<open>
  The configuration set by \<open>__init__\<close>: \<open>contamination\<close> (kept by the base class),
  \<open>_alpha\<close> and \<open>threshold_\<close> (the argument \<open>k\<close>).
\<close>

record loci =
  contamination :: real
  alpha :: real
  threshold :: real

text \<open>
  \<open>squareform(pdist(X, metric="euclidean"))\<close>: the symmetric matrix of the Euclidean
  distances between the rows of \<open>X\<close>. A point is the list of its features.
\<close>

definition euclidean :: "real list \<Rightarrow> real list \<Rightarrow> real" where
  "euclidean u v = sqrt (sum_list (map (\<lambda>(a, b). (a - b)\<^sup>2) (zip u v)))"

definition dist_matrix :: "real list list \<Rightarrow> real list list" where
  "dist_matrix X = map (\<lambda>u. map (\<lambda>v. euclidean u v) X) X"

text \<open>\<open>dist_matrix.max()\<close>, the largest entry of the matrix.\<close>

definition matrix_max :: "real list list \<Rightarrow> real" where
  "matrix_max dm = Max (set (concat dm))"

text \<open>
  \<open>dist_matrix[i, :]\<close> for an index that is not negative: numpy raises IndexError when
  the index is not below the number of rows.
\<close>

definition get_row :: "real list list \<Rightarrow> nat \<Rightarrow> error + real list" where
  "get_row dm i = (if i < length dm then Inr (dm ! i) else Inl IndexError)"

subsection \<open>Critical radii\<close>

text \<open>
  \<open>_get_critical_values\<close>: the mask keeps the distances of row \<open>p_ix\<close> in
  \<open>(r_min, r_max]\<close>; the kept distances and the kept distances divided by \<open>_alpha\<close> are
  concatenated and sorted.
\<close>

definition get_critical_values ::
  "loci \<Rightarrow> real list list \<Rightarrow> nat \<Rightarrow> npfloat \<Rightarrow> npfloat \<Rightarrow> error + npfloat list" where
  "get_critical_values self dm p_ix r_max r_min =
     (case get_row dm p_ix of
        Inl e \<Rightarrow> Inl e
      | Inr distances \<Rightarrow>
          let masked = filter (\<lambda>d. np_lt r_min (Num d) \<and> np_le (Num d) r_max) distances
          in Inr (np_sort (map Num masked @
                           map (\<lambda>d. np_div (Num d) (Num (alpha self))) masked)))"

subsection \<open>Neighbourhoods\<close>

text \<open>\<open>_get_sampling_N\<close>: the indices whose distance from \<open>p_ix\<close> is at most \<open>r\<close>.\<close>

definition get_sampling_N :: "real list list \<Rightarrow> nat \<Rightarrow> npfloat \<Rightarrow> error + nat list" where
  "get_sampling_N dm p_ix r =
     (case get_row dm p_ix of
        Inl e \<Rightarrow> Inl e
      | Inr p_distances \<Rightarrow> Inr (nonzero (map (\<lambda>d. np_le (Num d) r) p_distances)))"

text \<open>
  \<open>_get_alpha_n\<close> branches on \<open>type(indices) is int\<close>. The argument is either a Python
  int or an index array; the result is a count or an array of counts, one per index.
\<close>

datatype index_arg = IntIx nat | ArrIx "nat list"

datatype alpha_n = Count nat | Counts "nat list"

text \<open>
  The double product \<open>r * self._alpha\<close>. Rounding to nearest turns an exact product of
  magnitude at most \<open>2 ^ -1075\<close>, half the least positive double, into zero, and one of
  magnitude at least \<open>2 ^ 1024 - 2 ^ 970\<close> into an infinity; between the two bounds the
  product is taken exact.
\<close>

definition underflow_bound :: real where
  "underflow_bound = 1 / 2 ^ 1075"

definition overflow_bound :: real where
  "overflow_bound = 2 ^ 1024 - 2 ^ 970"

fun round_extremes :: "npfloat \<Rightarrow> npfloat" where
  "round_extremes (Num v) =
     (if \<bar>v\<bar> \<le> underflow_bound then Num 0
      else if overflow_bound \<le> v then PInf
      else if v \<le> - overflow_bound then NInf
      else Num v)"
| "round_extremes PInf = PInf"
| "round_extremes NInf = NInf"
| "round_extremes NaN = NaN"

definition alpha_radius :: "loci \<Rightarrow> npfloat \<Rightarrow> npfloat" where
  "alpha_radius self r = round_extremes (np_mul r (Num (alpha self)))"

text \<open>The comparison \<open>row < (r * self._alpha)\<close> on one row of the matrix.\<close>

definition alpha_mask :: "loci \<Rightarrow> npfloat \<Rightarrow> real list \<Rightarrow> bool list" where
  "alpha_mask self r row = map (\<lambda>d. np_lt (Num d) (alpha_radius self r)) row"

text \<open>The branch of a Python int.\<close>

definition alpha_n_int :: "loci \<Rightarrow> real list list \<Rightarrow> nat \<Rightarrow> npfloat \<Rightarrow> error + nat" where
  "alpha_n_int self dm i r =
     (case get_row dm i of
        Inl e \<Rightarrow> Inl e
      | Inr row \<Rightarrow> Inr (count_nonzero (alpha_mask self r row)))"

text \<open>
  The branch of an index array: \<open>dist_matrix[indices, :]\<close> takes the rows of the indices
  (IndexError when one of them is out of range) and \<open>count_nonzero(..., axis=1)\<close> counts
  in each row.
\<close>

definition alpha_n_arr ::
  "loci \<Rightarrow> real list list \<Rightarrow> nat list \<Rightarrow> npfloat \<Rightarrow> error + nat list" where
  "alpha_n_arr self dm ixs r =
     (if list_all (\<lambda>i. i < length dm) ixs
      then Inr (map (\<lambda>i. count_nonzero (alpha_mask self r (dm ! i))) ixs)
      else Inl IndexError)"

fun get_alpha_n ::
  "loci \<Rightarrow> real list list \<Rightarrow> index_arg \<Rightarrow> npfloat \<Rightarrow> error + alpha_n" where
  "get_alpha_n self dm (IntIx i) r =
     (case alpha_n_int self dm i r of Inl e \<Rightarrow> Inl e | Inr n \<Rightarrow> Inr (Count n))"
| "get_alpha_n self dm (ArrIx ixs) r =
     (case alpha_n_arr self dm ixs r of Inl e \<Rightarrow> Inl e | Inr ns \<Rightarrow> Inr (Counts ns))"

subsection \<open>The scoring loops\<close>

text \<open>
  The inner loop \<open>for r in critical_values\<close> of \<open>_calculate_decision_score\<close> for the
  point \<open>p_ix\<close>, on the list \<open>outlier_scores\<close>. The first call of \<open>_get_alpha_n\<close> gets the
  index array of \<open>_get_sampling_N\<close>, the second one the loop variable of
  \<open>range\<close>, a Python int. \<open>break\<close> returns the list as it is.
\<close>

fun scan_radii ::
  "loci \<Rightarrow> real list list \<Rightarrow> nat \<Rightarrow> npfloat list \<Rightarrow> npfloat list \<Rightarrow> error + npfloat list" where
  "scan_radii self dm p_ix [] outlier_scores = Inr outlier_scores"
| "scan_radii self dm p_ix (r # rs) outlier_scores =
     (case get_sampling_N dm p_ix r of
        Inl e \<Rightarrow> Inl e
      | Inr sample \<Rightarrow>
     (case alpha_n_arr self dm sample r of
        Inl e \<Rightarrow> Inl e
      | Inr n_values \<Rightarrow>
     (case alpha_n_int self dm p_ix r of
        Inl e \<Rightarrow> Inl e
      | Inr cur_alpha_n \<Rightarrow>
          let n_hat = np_mean (of_counts n_values);
              mdef = np_sub (Num 1) (np_div (Num (real cur_alpha_n)) n_hat);
              sigma_mdef = np_div (np_std (of_counts n_values)) n_hat
          in if np_ge n_hat (Num 20)
             then let outlier_scores' = outlier_scores[p_ix := np_div mdef sigma_mdef]
                  in if np_gt mdef (np_mul (Num (threshold self)) sigma_mdef)
                     then Inr outlier_scores'
                     else scan_radii self dm p_ix rs outlier_scores'
             else scan_radii self dm p_ix rs outlier_scores)))"

text \<open>The outer loop \<open>for p_ix in range(X.shape[0])\<close>.\<close>

fun score_points ::
  "loci \<Rightarrow> real list list \<Rightarrow> npfloat \<Rightarrow> nat list \<Rightarrow> npfloat list \<Rightarrow> error + npfloat list" where
  "score_points self dm r_max [] outlier_scores = Inr outlier_scores"
| "score_points self dm r_max (p_ix # ps) outlier_scores =
     (case get_critical_values self dm p_ix r_max (Num 0) of
        Inl e \<Rightarrow> Inl e
      | Inr critical_values \<Rightarrow>
     (case scan_radii self dm p_ix critical_values outlier_scores of
        Inl e \<Rightarrow> Inl e
      | Inr outlier_scores' \<Rightarrow> score_points self dm r_max ps outlier_scores'))"

text \<open>
  \<open>_calculate_decision_score\<close>, for a dataset that \<open>check_array\<close> has accepted (it has
  at least one point).
\<close>

definition calculate_decision_score :: "loci \<Rightarrow> real list list \<Rightarrow> error + npfloat list" where
  "calculate_decision_score self X =
     (let outlier_scores = replicate (length X) (Num 0);
          dm = dist_matrix X;
          max_dist = matrix_max dm;
          r_max = np_div (Num max_dist) (Num (alpha self))
      in score_points self dm r_max [0..<length X] outlier_scores)"

subsection \<open>The fitted detector\<close>

text \<open>
  \<open>check_array\<close> of scikit-learn accepts a two-dimensional array of finite numbers with
  at least one row and one column and raises ValueError otherwise.
\<close>

definition check_array :: "real list list \<Rightarrow> error + real list list" where
  "check_array X =
     (if X \<noteq> [] \<and> hd X \<noteq> [] \<and> list_all (\<lambda>u. length u = length (hd X)) X
      then Inr X else Inl ValueError)"

record fitted =
  decision_scores :: "npfloat list"
  labels :: "nat list"
  mu :: npfloat
  sigma :: npfloat

text \<open>
  \<open>fit\<close>. The call \<open>_set_n_classes(y)\<close> of the base class comes before the four
  attributes are assigned and is left out.
\<close>

definition fit :: "loci \<Rightarrow> real list list \<Rightarrow> error + fitted" where
  "fit self X =
     (case check_array X of
        Inl e \<Rightarrow> Inl e
      | Inr X' \<Rightarrow>
     (case calculate_decision_score self X' of
        Inl e \<Rightarrow> Inl e
      | Inr outlier_scores \<Rightarrow>
          Inr \<lparr> decision_scores = outlier_scores,
                labels = map (\<lambda>s. if np_gt s (Num (threshold self)) then 1 else 0)
                           outlier_scores,
                mu = np_mean outlier_scores,
                sigma = np_std outlier_scores \<rparr>))"

subsection \<open>The quantities of one pass of the inner loop\<close>

text \<open>
  The values that the body of the inner loop computes for the point \<open>p\<close> at the radius
  \<open>r\<close>, named as its variables are, for a valid index \<open>p\<close>.
\<close>

definition sampling :: "real list list \<Rightarrow> nat \<Rightarrow> npfloat \<Rightarrow> nat list" where
  "sampling dm p r = nonzero (map (\<lambda>d. np_le (Num d) r) (dm ! p))"

definition alpha_count :: "loci \<Rightarrow> real list list \<Rightarrow> nat \<Rightarrow> npfloat \<Rightarrow> nat" where
  "alpha_count self dm i r = count_nonzero (alpha_mask self r (dm ! i))"

definition n_values :: "loci \<Rightarrow> real list list \<Rightarrow> nat \<Rightarrow> npfloat \<Rightarrow> nat list" where
  "n_values self dm p r = map (\<lambda>i. alpha_count self dm i r) (sampling dm p r)"

definition n_hat :: "loci \<Rightarrow> real list list \<Rightarrow> nat \<Rightarrow> npfloat \<Rightarrow> npfloat" where
  "n_hat self dm p r = np_mean (of_counts (n_values self dm p r))"

definition mdef :: "loci \<Rightarrow> real list list \<Rightarrow> nat \<Rightarrow> npfloat \<Rightarrow> npfloat" where
  "mdef self dm p r =
     np_sub (Num 1) (np_div (Num (real (alpha_count self dm p r))) (n_hat self dm p r))"

definition sigma_mdef :: "loci \<Rightarrow> real list list \<Rightarrow> nat \<Rightarrow> npfloat \<Rightarrow> npfloat" where
  "sigma_mdef self dm p r =
     np_div (np_std (of_counts (n_values self dm p r))) (n_hat self dm p r)"

text \<open>The guard \<open>n_hat >= 20\<close>, the score it stores and the test of the \<open>break\<close>.\<close>

definition guard :: "loci \<Rightarrow> real list list \<Rightarrow> nat \<Rightarrow> npfloat \<Rightarrow> bool" where
  "guard self dm p r = np_ge (n_hat self dm p r) (Num 20)"

definition ratio :: "loci \<Rightarrow> real list list \<Rightarrow> nat \<Rightarrow> npfloat \<Rightarrow> npfloat" where
  "ratio self dm p r = np_div (mdef self dm p r) (sigma_mdef self dm p r)"

definition early_exit :: "loci \<Rightarrow> real list list \<Rightarrow> nat \<Rightarrow> npfloat \<Rightarrow> bool" where
  "early_exit self dm p r =
     (guard self dm p r \<and>
      np_gt (mdef self dm p r) (np_mul (Num (threshold self)) (sigma_mdef self dm p r)))"

text \<open>The inner loop on the running score of one point alone.\<close>

fun point_scan :: "loci \<Rightarrow> real list list \<Rightarrow> nat \<Rightarrow> npfloat list \<Rightarrow> npfloat \<Rightarrow> npfloat" where
  "point_scan self dm p [] s = s"
| "point_scan self dm p (r # rs) s =
     (if guard self dm p r
      then (if early_exit self dm p r then ratio self dm p r
            else point_scan self dm p rs (ratio self dm p r))
      else point_scan self dm p rs s)"

text \<open>The radii that the scoring run tests for the point \<open>p\<close>, and the score it gives \<open>p\<close>.\<close>

definition masked_distances :: "real list \<Rightarrow> npfloat \<Rightarrow> npfloat \<Rightarrow> real list" where
  "masked_distances distances r_max r_min =
     filter (\<lambda>d. np_lt r_min (Num d) \<and> np_le (Num d) r_max) distances"

definition run_r_max :: "loci \<Rightarrow> real list list \<Rightarrow> npfloat" where
  "run_r_max self X = np_div (Num (matrix_max (dist_matrix X))) (Num (alpha self))"

definition critical_values :: "loci \<Rightarrow> real list list \<Rightarrow> nat \<Rightarrow> npfloat list" where
  "critical_values self X p =
     (let masked = masked_distances (dist_matrix X ! p) (run_r_max self X) (Num 0)
      in np_sort (map Num masked @ map (\<lambda>d. np_div (Num d) (Num (alpha self))) masked))"

definition point_score :: "loci \<Rightarrow> real list list \<Rightarrow> nat \<Rightarrow> npfloat" where
  "point_score self X p =
     point_scan self (dist_matrix X) p (critical_values self X p) (Num 0)"

text \<open>
  The radii that a scan passes through: those before the first radius at which the
  \<open>break\<close> is taken, and that radius.
\<close>

fun processed :: "('a \<Rightarrow> bool) \<Rightarrow> 'a list \<Rightarrow> 'a list" where
  "processed stop [] = []"
| "processed stop (r # rs) = (if stop r then [r] else r # processed stop rs)"

text \<open>A matrix with as many columns in every row as it has rows.\<close>

definition square :: "real list list \<Rightarrow> bool" where
  "square dm = list_all (\<lambda>row. length row = length dm) dm"

text \<open>
  The score that the description of the scan gives: the ratio at the last radius
  satisfying the guard among the radii passed through, and the initial score when no
  radius passed through satisfies it.
\<close>

definition scan_outcome ::
  "loci \<Rightarrow> real list list \<Rightarrow> nat \<Rightarrow> npfloat list \<Rightarrow> npfloat \<Rightarrow> npfloat" where
  "scan_outcome self dm p rs s =
     (case filter (guard self dm p) (processed (early_exit self dm p) rs) of
        [] \<Rightarrow> s
      | g # gs \<Rightarrow> ratio self dm p (last (g # gs)))"

text \<open>The entry \<open>_calculate_decision_score(X)[p]\<close> of the returned list.\<close>

definition score_at :: "loci \<Rightarrow> real list list \<Rightarrow> nat \<Rightarrow> error + npfloat" where
  "score_at self X p =
     (case calculate_decision_score self X of
        Inl e \<Rightarrow> Inl e
      | Inr outlier_scores \<Rightarrow>
          if p < length outlier_scores then Inr (outlier_scores ! p) else Inl IndexError)"

subsection \<open>Example inputs\<close>

text \<open>The default configuration of \<open>__init__\<close>, and datasets of points on a line.\<close>

definition cfg0 :: loci where
  "cfg0 = \<lparr>contamination = 1/10, alpha = 1/2, threshold = 3\<rparr>"

definition X3 :: "real list list" where
  "X3 = [[0], [1], [2]]"

text \<open>
  Twenty-one points at \<open>0\<close>, one at \<open>1\<close> and two at \<open>3\<close>; twenty-five points at \<open>0\<close> and
  one at \<open>1\<close>; twenty points at \<open>0\<close> and twenty at \<open>1\<close>; and the distance matrices of
  the three datasets. Then a configuration with \<open>alpha = 2 ^ -600\<close> and two points at the
  distance \<open>2 ^ -500\<close>.
\<close>

definition X24 :: "real list list" where
  "X24 = replicate 21 [0] @ [[1], [3], [3]]"

definition D24 :: "real list list" where
  "D24 = replicate 21 (replicate 21 0 @ [1, 3, 3]) @
         [replicate 21 1 @ [0, 2, 2], replicate 21 3 @ [2, 0, 0], replicate 21 3 @ [2, 0, 0]]"

definition X26 :: "real list list" where
  "X26 = replicate 25 [0] @ [[1]]"

definition D26 :: "real list list" where
  "D26 = replicate 25 (replicate 25 0 @ [1]) @ [replicate 25 1 @ [0]]"



definition X40 :: "real list list" where
  "X40 = replicate 20 [0] @ replicate 20 [1]"

definition D40 :: "real list list" where
  "D40 = replicate 20 (replicate 20 0 @ replicate 20 1) @
         replicate 20 (replicate 20 1 @ replicate 20 0)"

section \<open>Properties\<close>

subsection \<open>Arithmetic on finite values\<close>

lemma foldl_np_add_Num: "foldl np_add (Num a) (map Num xs) = Num (a + sum_list xs)"
  by (induction xs arbitrary: a) (simp_all add: add.assoc)

lemma np_sum_Num: "np_sum (map Num xs) = Num (sum_list xs)"
  by (simp add: np_sum_def foldl_np_add_Num)

lemma np_mean_Num: "xs \<noteq> [] \<Longrightarrow> np_mean (map Num xs) = Num (sum_list xs / real (length xs))"
  by (simp add: np_mean_def np_sum_Num)

lemma np_mean_Nil: "np_mean [] = NaN"
  by (simp add: np_mean_def np_sum_def)

lemma np_std_Nil: "np_std [] = NaN"
  by (simp add: np_std_def np_mean_Nil)

lemma np_std_Num:
  assumes "xs \<noteq> []"
  shows "np_std (map Num xs) =
    Num (sqrt (sum_list (map (\<lambda>x. (x - sum_list xs / real (length xs))\<^sup>2) xs) / real (length xs)))"
proof -
  let ?m = "sum_list xs / real (length xs)"
  let ?sq = "map (\<lambda>x. (x - ?m)\<^sup>2) xs"
  have dev: "map (\<lambda>x. np_mul (np_abs (np_sub x (Num ?m))) (np_abs (np_sub x (Num ?m))))
      (map Num xs) = map Num ?sq"
    by (simp add: np_sub_def power2_eq_square)
  have nonneg: "0 \<le> sum_list ?sq / real (length xs)"
    by (intro divide_nonneg_nonneg sum_list_nonneg) auto
  have "np_std (map Num xs) =
      np_sqrt (np_mean (map (\<lambda>x. np_mul (np_abs (np_sub x (Num ?m))) (np_abs (np_sub x (Num ?m))))
        (map Num xs)))"
    by (simp only: np_std_def Let_def np_mean_Num [OF assms])
  also have "\<dots> = np_sqrt (np_mean (map Num ?sq))"
    by (simp only: dev)
  also have "\<dots> = np_sqrt (Num (sum_list ?sq / real (length xs)))"
  proof -
    have "np_mean (map Num ?sq) = Num (sum_list ?sq / real (length ?sq))"
      by (rule np_mean_Num) (use assms in simp)
    then show ?thesis by (simp only: length_map)
  qed
  also have "\<dots> = Num (sqrt (sum_list ?sq / real (length xs)))"
    using nonneg by simp
  finally show ?thesis .
qed

lemma of_counts_map: "of_counts ns = map Num (map real ns)"
  by (simp add: of_counts_def)

subsection \<open>The loops never raise\<close>

lemma get_sampling_N_eq: "p < length dm \<Longrightarrow> get_sampling_N dm p r = Inr (sampling dm p r)"
  by (simp add: get_sampling_N_def get_row_def sampling_def)

lemma set_nonzero: "set (nonzero bs) = {j. j < length bs \<and> bs ! j}"
  by (auto simp: nonzero_def)

lemma set_sampling:
  "set (sampling dm p r) = {j. j < length (dm ! p) \<and> np_le (Num (dm ! p ! j)) r}"
  by (auto simp: sampling_def set_nonzero)

lemma alpha_n_int_eq: "i < length dm \<Longrightarrow> alpha_n_int self dm i r = Inr (alpha_count self dm i r)"
  by (simp add: alpha_n_int_def get_row_def alpha_count_def)

lemma alpha_n_arr_eq:
  "list_all (\<lambda>i. i < length dm) ixs \<Longrightarrow>
   alpha_n_arr self dm ixs r = Inr (map (\<lambda>i. alpha_count self dm i r) ixs)"
  by (simp add: alpha_n_arr_def alpha_count_def)

lemma square_row: "square dm \<Longrightarrow> p < length dm \<Longrightarrow> length (dm ! p) = length dm"
  by (simp add: square_def list_all_length)

lemma sampling_in_range:
  "square dm \<Longrightarrow> p < length dm \<Longrightarrow> list_all (\<lambda>i. i < length dm) (sampling dm p r)"
  by (auto simp: list_all_iff set_sampling square_row)

lemma scan_radii_eq:
  assumes sq: "square dm" and p: "p < length dm"
  shows "p < length scores \<Longrightarrow>
    scan_radii self dm p rs scores = Inr (scores[p := point_scan self dm p rs (scores ! p)])"
proof (induction rs arbitrary: scores)
  case Nil
  then show ?case by simp
next
  case (Cons r rs)
  have arr: "alpha_n_arr self dm (sampling dm p r) r = Inr (n_values self dm p r)"
    using alpha_n_arr_eq [OF sampling_in_range [OF sq p]] by (simp add: n_values_def)
  show ?case
    using Cons.prems Cons.IH [of "scores[p := ratio self dm p r]"] Cons.IH [of scores]
    by (simp add: get_sampling_N_eq [OF p] arr alpha_n_int_eq [OF p] Let_def
        n_hat_def [symmetric] mdef_def [symmetric] sigma_mdef_def [symmetric]
        guard_def [symmetric] ratio_def [symmetric] early_exit_def)
qed

lemma length_dist_matrix: "length (dist_matrix X) = length X"
  by (simp add: dist_matrix_def)

lemma square_dist_matrix: "square (dist_matrix X)"
  by (simp add: square_def dist_matrix_def list_all_iff)

lemma get_critical_values_eq:
  "p < length dm \<Longrightarrow>
   get_critical_values self dm p r_max r_min =
     Inr (np_sort (map Num (masked_distances (dm ! p) r_max r_min) @
                   map (\<lambda>d. np_div (Num d) (Num (alpha self))) (masked_distances (dm ! p) r_max r_min)))"
  by (simp add: get_critical_values_def get_row_def masked_distances_def Let_def)

lemma score_points_eq:
  assumes sq: "square (dist_matrix X)"
  shows "distinct ps \<Longrightarrow> set ps \<subseteq> {..<length X} \<Longrightarrow> length scores = length X \<Longrightarrow>
    \<exists>out. score_points self (dist_matrix X) (run_r_max self X) ps scores = Inr out \<and>
      length out = length X \<and>
      (\<forall>q<length X. out ! q =
         (if q \<in> set ps
          then point_scan self (dist_matrix X) q (critical_values self X q) (scores ! q)
          else scores ! q))"
proof (induction ps arbitrary: scores)
  case Nil
  then show ?case by simp
next
  case (Cons p ps)
  let ?dm = "dist_matrix X"
  let ?v = "point_scan self ?dm p (critical_values self X p) (scores ! p)"
  have p: "p < length ?dm" using Cons.prems by (simp add: length_dist_matrix)
  have cv: "get_critical_values self ?dm p (run_r_max self X) (Num 0) = Inr (critical_values self X p)"
    by (simp add: get_critical_values_eq [OF p] critical_values_def Let_def)
  have sc: "scan_radii self ?dm p (critical_values self X p) scores = Inr (scores[p := ?v])"
    using scan_radii_eq [OF sq p] p Cons.prems by (simp add: length_dist_matrix)
  obtain out where out: "score_points self ?dm (run_r_max self X) ps (scores[p := ?v]) = Inr out"
    "length out = length X"
    "\<forall>q<length X. out ! q =
         (if q \<in> set ps
          then point_scan self ?dm q (critical_values self X q) (scores[p := ?v] ! q)
          else scores[p := ?v] ! q)"
    using Cons.IH [of "scores[p := ?v]"] Cons.prems by auto
  have "\<forall>q<length X. out ! q =
         (if q \<in> set (p # ps)
          then point_scan self ?dm q (critical_values self X q) (scores ! q)
          else scores ! q)"
    using out(3) Cons.prems by (auto simp: nth_list_update)
  then show ?case using out(1,2) by (simp add: cv sc)
qed

lemma calculate_decision_score_eq:
  "calculate_decision_score self X = Inr (map (point_score self X) [0..<length X])"
proof -
  have sub: "set [0..<length X] \<subseteq> {..<length X}" by auto
  have len: "length (replicate (length X) (Num 0 :: npfloat)) = length X" by simp
  obtain out where out:
    "score_points self (dist_matrix X) (run_r_max self X) [0..<length X]
       (replicate (length X) (Num 0)) = Inr out"
    "length out = length X"
    "\<forall>q<length X. out ! q =
       (if q \<in> set [0..<length X]
        then point_scan self (dist_matrix X) q (critical_values self X q)
               (replicate (length X) (Num 0) ! q)
        else replicate (length X) (Num 0) ! q)"
    using score_points_eq [OF square_dist_matrix distinct_upt sub len] by blast
  have "out = map (point_score self X) [0..<length X]"
    using out(2,3) by (intro nth_equalityI) (simp_all add: point_score_def)
  then show ?thesis
    using out(1) by (simp add: calculate_decision_score_def Let_def run_r_max_def)
qed

subsection \<open>Neighbourhood queries\<close>

lemma count_nonzero_card:
  "count_nonzero (map P xs) = card {j. j < length xs \<and> P (xs ! j)}"
proof -
  have "count_nonzero (map P xs) = length (filter P xs)"
    by (simp add: count_nonzero_def filter_map comp_def)
  then show ?thesis by (simp add: length_filter_conv_card)
qed

lemma alpha_count_card:
  "alpha_count self dm i r =
     card {j. j < length (dm ! i) \<and> np_lt (Num (dm ! i ! j)) (alpha_radius self r)}"
  by (simp add: alpha_count_def alpha_mask_def count_nonzero_card)

lemma alpha_count_le: "alpha_count self dm i r \<le> length (dm ! i)"
  by (simp add: alpha_count_def alpha_mask_def count_nonzero_def
      order_trans [OF length_filter_le])

lemma sorted_distinct_nonzero: "sorted (nonzero bs) \<and> distinct (nonzero bs)"
  by (simp add: nonzero_def sorted_wrt_filter)

lemma euclidean_self: "euclidean u u = 0"
proof -
  have "sum_list (map (\<lambda>(a, b). (a - b)\<^sup>2) (zip u u)) = (0::real)"
    by (induction u) simp_all
  then show ?thesis by (simp add: euclidean_def)
qed

lemma euclidean_nonneg: "0 \<le> euclidean u v"
  unfolding euclidean_def
  by (intro real_sqrt_ge_zero sum_list_nonneg) auto

lemma dist_matrix_nth:
  "i < length X \<Longrightarrow> j < length X \<Longrightarrow> dist_matrix X ! i ! j = euclidean (X ! i) (X ! j)"
  by (simp add: dist_matrix_def)

lemma length_dist_matrix_row: "i < length X \<Longrightarrow> length (dist_matrix X ! i) = length X"
  by (simp add: dist_matrix_def)

lemma dist_matrix_diag: "i < length X \<Longrightarrow> dist_matrix X ! i ! i = 0"
  by (simp add: dist_matrix_nth euclidean_self)

lemma bounds_pos: "0 < underflow_bound" "0 < overflow_bound"
  by (simp_all add: underflow_bound_def overflow_bound_def)

lemma alpha_radius_exact:
  assumes "underflow_bound < \<bar>x * alpha self\<bar>" and "\<bar>x * alpha self\<bar> < overflow_bound"
  shows "alpha_radius self (Num x) = Num (x * alpha self)"
  using assms by (auto simp: alpha_radius_def)

lemma alpha_radius_pos_iff:
  "np_lt (Num 0) (alpha_radius self (Num x)) \<longleftrightarrow> underflow_bound < x * alpha self"
  using bounds_pos by (auto simp: alpha_radius_def)

lemma alpha_count_self:
  assumes "i < length X" and "np_lt (Num 0) (alpha_radius self r)"
  shows "1 \<le> alpha_count self (dist_matrix X) i r"
proof -
  let ?S = "{j. j < length (dist_matrix X ! i) \<and>
              np_lt (Num (dist_matrix X ! i ! j)) (alpha_radius self r)}"
  have "i \<in> ?S" using assms by (simp add: length_dist_matrix_row dist_matrix_diag)
  moreover have "finite ?S" by simp
  ultimately have "0 < card ?S" unfolding card_gt_0_iff by blast
  then show ?thesis unfolding alpha_count_card by linarith
qed

text \<open>
  C5: the sampling query returns exactly the indices \<open>j\<close> with \<open>D[p][j] \<le> r\<close>
  (the boundary is included), in ascending order; the alpha count, of a Python int and
  of each index of an index array, is the number of indices \<open>j\<close> with \<open>D[index][j]\<close>
  below the product \<open>r * alpha\<close> that the code computes (the boundary is excluded), which
  is the exact product wherever it neither underflows nor overflows.
\<close>

theorem sampling_inclusive_alpha_strict:
  assumes "p < length dm" and "list_all (\<lambda>i. i < length dm) ixs"
  shows "(\<exists>s. get_sampling_N dm p (Num r) = Inr s \<and> sorted s \<and> distinct s \<and>
              set s = {j. j < length (dm ! p) \<and> dm ! p ! j \<le> r}) \<and>
         get_alpha_n self dm (IntIx p) (Num r) =
           Inr (Count (card {j. j < length (dm ! p) \<and>
                               np_lt (Num (dm ! p ! j)) (alpha_radius self (Num r))})) \<and>
         get_alpha_n self dm (ArrIx ixs) (Num r) =
           Inr (Counts (map (\<lambda>i. card {j. j < length (dm ! i) \<and>
                                          np_lt (Num (dm ! i ! j)) (alpha_radius self (Num r))})
                          ixs)) \<and>
         (underflow_bound < \<bar>r * alpha self\<bar> \<and> \<bar>r * alpha self\<bar> < overflow_bound \<longrightarrow>
            get_alpha_n self dm (IntIx p) (Num r) =
              Inr (Count (card {j. j < length (dm ! p) \<and> dm ! p ! j < r * alpha self})) \<and>
            get_alpha_n self dm (ArrIx ixs) (Num r) =
              Inr (Counts (map (\<lambda>i. card {j. j < length (dm ! i) \<and> dm ! i ! j < r * alpha self})
                             ixs)))"
proof -
  have "sorted (sampling dm p (Num r)) \<and> distinct (sampling dm p (Num r))"
    by (simp add: sampling_def sorted_distinct_nonzero)
  moreover have "set (sampling dm p (Num r)) = {j. j < length (dm ! p) \<and> dm ! p ! j \<le> r}"
    by (simp add: set_sampling)
  ultimately have gen:
    "(\<exists>s. get_sampling_N dm p (Num r) = Inr s \<and> sorted s \<and> distinct s \<and>
              set s = {j. j < length (dm ! p) \<and> dm ! p ! j \<le> r}) \<and>
         get_alpha_n self dm (IntIx p) (Num r) =
           Inr (Count (card {j. j < length (dm ! p) \<and>
                               np_lt (Num (dm ! p ! j)) (alpha_radius self (Num r))})) \<and>
         get_alpha_n self dm (ArrIx ixs) (Num r) =
           Inr (Counts (map (\<lambda>i. card {j. j < length (dm ! i) \<and>
                                          np_lt (Num (dm ! i ! j)) (alpha_radius self (Num r))})
                          ixs))"
    using assms
    by (simp add: get_sampling_N_eq alpha_n_int_eq alpha_n_arr_eq alpha_count_card)
  have "get_alpha_n self dm (IntIx p) (Num r) =
              Inr (Count (card {j. j < length (dm ! p) \<and> dm ! p ! j < r * alpha self})) \<and>
            get_alpha_n self dm (ArrIx ixs) (Num r) =
              Inr (Counts (map (\<lambda>i. card {j. j < length (dm ! i) \<and> dm ! i ! j < r * alpha self})
                             ixs))"
    if "underflow_bound < \<bar>r * alpha self\<bar>" "\<bar>r * alpha self\<bar> < overflow_bound"
    using gen unfolding alpha_radius_exact [OF that] by simp
  with gen show ?thesis by blast
qed

lemma alpha_radius_cfg0:
  "alpha_radius cfg0 (Num 1) = Num (1 / 2)" "alpha_radius cfg0 (Num 2) = Num 1"
  "alpha_radius cfg0 (Num 3) = Num (3 / 2)" "alpha_radius cfg0 (Num 4) = Num 2"
  "alpha_radius cfg0 (Num 6) = Num 3"
  by (simp_all add: alpha_radius_def cfg0_def underflow_bound_def overflow_bound_def)

lemma dm3: "dist_matrix [[0], [1], [2]] = [[0, 1, 2], [1, 0, 1], [2, 1, 0]]"
  by (simp add: dist_matrix_def euclidean_def)

theorem sampling_inclusive_alpha_strict_witness:
  "(0::nat) < length [[0, 1, 2], [1, 0, 1], [2, 1, 0 :: real]] \<and>
   (\<exists>s. get_sampling_N [[0, 1, 2], [1, 0, 1], [2, 1, 0]] 0 (Num 1) = Inr s \<and> sorted s \<and>
        distinct s \<and>
        set s = {j. j < length ([[0, 1, 2], [1, 0, 1], [2, 1, 0 :: real]] ! 0) \<and>
                    [[0, 1, 2], [1, 0, 1], [2, 1, 0 :: real]] ! 0 ! j \<le> 1}) \<and>
   get_sampling_N [[0, 1, 2], [1, 0, 1], [2, 1, 0]] 0 (Num 1) = Inr [0, 1] \<and>
   get_alpha_n cfg0 [[0, 1, 2], [1, 0, 1], [2, 1, 0]] (IntIx 0) (Num 2) = Inr (Count 1) \<and>
   get_alpha_n cfg0 [[0, 1, 2], [1, 0, 1], [2, 1, 0]] (ArrIx [0, 1]) (Num 2) =
     Inr (Counts [1, 1])"
proof -
  let ?dm = "[[0, 1, 2], [1, 0, 1], [2, 1, 0 :: real]]"
  have h: "(0::nat) < length ?dm" "list_all (\<lambda>i. i < length ?dm) [0, 1]" by simp_all
  have ev: "get_sampling_N ?dm 0 (Num 1) = Inr [0, 1]"
    "get_alpha_n cfg0 ?dm (IntIx 0) (Num 2) = Inr (Count 1)"
    "get_alpha_n cfg0 ?dm (ArrIx [0, 1]) (Num 2) = Inr (Counts [1, 1])"
    by (simp_all add: get_sampling_N_def get_row_def nonzero_def alpha_n_int_def
        alpha_n_arr_def alpha_mask_def alpha_radius_cfg0 count_nonzero_def upt_rec)
  show ?thesis
    using sampling_inclusive_alpha_strict [OF h, of 1 cfg0] h(1) ev by blast
qed

text \<open>
  C7: for an index of the matrix, the count of the scalar mode is the single entry of
  the batch mode on the array holding that index alone; for an index out of range both
  modes raise IndexError.
\<close>

theorem alpha_n_scalar_batch_agree:
  "if i < length dm
   then \<exists>c. get_alpha_n self dm (IntIx i) r = Inr (Count c) \<and>
            get_alpha_n self dm (ArrIx [i]) r = Inr (Counts [c])
   else get_alpha_n self dm (IntIx i) r = Inl IndexError \<and>
        get_alpha_n self dm (ArrIx [i]) r = Inl IndexError"
  by (simp add: alpha_n_int_def alpha_n_arr_def get_row_def)

theorem alpha_n_scalar_batch_agree_witness:
  "get_alpha_n cfg0 (dist_matrix X3) (IntIx 1) (Num 4) = Inr (Count 3) \<and>
   get_alpha_n cfg0 (dist_matrix X3) (ArrIx [1]) (Num 4) = Inr (Counts [3])"
proof -
  have "get_alpha_n cfg0 (dist_matrix X3) (IntIx 1) (Num 4) = Inr (Count 3)"
    by (simp add: X3_def dm3 alpha_n_int_def get_row_def alpha_mask_def alpha_radius_cfg0
        count_nonzero_def)
  moreover have "(1::nat) < length (dist_matrix X3)"
    by (simp add: X3_def dm3)
  ultimately show ?thesis
    using alpha_n_scalar_batch_agree [of 1 "dist_matrix X3" cfg0 "Num 4"] by auto
qed

text \<open>
  C4, as the code has it: for a dataset of \<open>N\<close> points the alpha count of a point, in
  scalar mode and in every entry of the batch mode, lies in \<open>[0, N]\<close>, and in \<open>[1, N]\<close>
  when the product \<open>r * alpha\<close> that the code computes is positive (the exact product is
  above the underflow bound), because the distance \<open>0\<close> of a point from itself is below
  that product: a point counts itself.
\<close>

theorem alpha_count_range:
  assumes "i < length X" and "list_all (\<lambda>i. i < length X) ixs"
  shows "\<exists>c cs.
     get_alpha_n self (dist_matrix X) (IntIx i) (Num r) = Inr (Count c) \<and>
     c \<le> length X \<and> (np_lt (Num 0) (alpha_radius self (Num r)) \<longrightarrow> 1 \<le> c) \<and>
     get_alpha_n self (dist_matrix X) (ArrIx ixs) (Num r) = Inr (Counts cs) \<and>
     length cs = length ixs \<and>
     (\<forall>c' \<in> set cs. c' \<le> length X \<and>
        (np_lt (Num 0) (alpha_radius self (Num r)) \<longrightarrow> 1 \<le> c')) \<and>
     (np_lt (Num 0) (alpha_radius self (Num r)) \<longleftrightarrow> underflow_bound < r * alpha self)"
proof -
  have bound: "alpha_count self (dist_matrix X) j (Num r) \<le> length X \<and>
      (np_lt (Num 0) (alpha_radius self (Num r)) \<longrightarrow>
         1 \<le> alpha_count self (dist_matrix X) j (Num r))"
    if "j < length X" for j
    using that alpha_count_le [of self "dist_matrix X" j "Num r"]
      alpha_count_self [of j X self "Num r"]
    by (simp add: length_dist_matrix_row)
  have ixs: "\<forall>j \<in> set ixs. j < length X"
    using assms(2) by (simp add: list_all_iff)
  show ?thesis
    using assms bound [OF assms(1)] bound ixs alpha_radius_pos_iff [of self r]
    by (simp add: alpha_n_int_eq alpha_n_arr_eq length_dist_matrix)
qed

theorem alpha_count_range_witness:
  "(1::nat) < length X3 \<and> np_lt (Num 0) (alpha_radius cfg0 (Num 4)) \<and>
   (\<exists>c cs. get_alpha_n cfg0 (dist_matrix X3) (IntIx 1) (Num 4) = Inr (Count c) \<and>
      c \<le> length X3 \<and> 1 \<le> c \<and>
      get_alpha_n cfg0 (dist_matrix X3) (ArrIx [0, 1]) (Num 4) = Inr (Counts cs) \<and>
      length cs = length [0::nat, 1] \<and> (\<forall>c' \<in> set cs. c' \<le> length X3 \<and> 1 \<le> c'))"
proof -
  have h: "(1::nat) < length X3" "list_all (\<lambda>i. i < length X3) [0, 1]"
    by (simp_all add: X3_def)
  have pos: "np_lt (Num 0) (alpha_radius cfg0 (Num 4))" by (simp add: alpha_radius_cfg0)
  from alpha_count_range [OF h, of cfg0 4] obtain c cs where
    "get_alpha_n cfg0 (dist_matrix X3) (IntIx 1) (Num 4) = Inr (Count c)" "c \<le> length X3"
    "np_lt (Num 0) (alpha_radius cfg0 (Num 4)) \<longrightarrow> 1 \<le> c"
    "get_alpha_n cfg0 (dist_matrix X3) (ArrIx [0, 1]) (Num 4) = Inr (Counts cs)"
    "length cs = length [0::nat, 1]"
    "\<forall>c' \<in> set cs. c' \<le> length X3 \<and>
       (np_lt (Num 0) (alpha_radius cfg0 (Num 4)) \<longrightarrow> 1 \<le> c')"
    by blast
  then show ?thesis
    using h(1) pos by blast
qed

text \<open>
  C4 as stated fails: in the dataset of the three points \<open>0\<close>, \<open>1\<close> and \<open>2\<close> on a line,
  at the radius \<open>4\<close> (a critical radius of the first point) the middle point counts all
  three points, itself included, which is more than \<open>N - 1\<close>.
\<close>

theorem alpha_count_range_counterexample:
  "get_alpha_n cfg0 (dist_matrix X3) (IntIx 1) (Num 4) = Inr (Count 3) \<and>
   get_alpha_n cfg0 (dist_matrix X3) (ArrIx [1]) (Num 4) = Inr (Counts [3]) \<and>
   \<not> (3::nat) \<le> length X3 - 1 \<and>
   Num 4 \<in> set (critical_values cfg0 X3 0)"
proof -
  have "Num 4 \<in> set (critical_values cfg0 X3 0)"
    by (simp add: X3_def dm3 cfg0_def critical_values_def run_r_max_def matrix_max_def
        masked_distances_def np_sort_def)
  then show ?thesis
    by (simp add: X3_def dm3 alpha_n_int_def alpha_n_arr_def get_row_def alpha_mask_def
        alpha_radius_cfg0 count_nonzero_def)
qed

subsection \<open>The minimum-sample guard\<close>

lemma sum_list_real_le:
  "\<forall>n \<in> set ns. n \<le> N \<Longrightarrow> sum_list (map real ns) \<le> real (length ns) * real N"
  by (induction ns) (auto simp: algebra_simps)


lemma n_hat_Nil: "n_values self dm p r = [] \<Longrightarrow> n_hat self dm p r = NaN"
  by (simp add: n_hat_def of_counts_def np_mean_Nil)

lemma n_hat_Num:
  "n_values self dm p r \<noteq> [] \<Longrightarrow>
   n_hat self dm p r =
     Num (sum_list (map real (n_values self dm p r)) / real (length (n_values self dm p r)))"
  using np_mean_Num [of "map real (n_values self dm p r)"]
  by (simp add: n_hat_def of_counts_map)

lemma n_values_le:
  assumes "p < length X" and "c \<in> set (n_values self (dist_matrix X) p r)"
  shows "c \<le> length X"
proof -
  obtain i where i: "i \<in> set (sampling (dist_matrix X) p r)"
      and c: "c = alpha_count self (dist_matrix X) i r"
    using assms(2) by (auto simp: n_values_def)
  have "i < length X"
    using i assms(1) by (simp add: set_sampling length_dist_matrix_row)
  then show ?thesis
    using alpha_count_le [of self "dist_matrix X" i r] c by (simp add: length_dist_matrix_row)
qed

lemma guard_needs_twenty:
  assumes "p < length X" and "guard self (dist_matrix X) p r"
  shows "20 \<le> length X"
proof (rule ccontr)
  assume small: "\<not> 20 \<le> length X"
  let ?ns = "n_values self (dist_matrix X) p r"
  have ne: "?ns \<noteq> []"
    using assms(2) n_hat_Nil [of self "dist_matrix X" p r] by (auto simp: guard_def np_ge_def)
  have "sum_list (map real ?ns) \<le> real (length ?ns) * real (length X)"
    using n_values_le [OF assms(1)] by (intro sum_list_real_le) blast
  moreover have "0 < real (length ?ns)" using ne by simp
  ultimately have "sum_list (map real ?ns) / real (length ?ns) \<le> real (length X)"
    by (simp add: pos_divide_le_eq mult.commute)
  moreover have "20 \<le> sum_list (map real ?ns) / real (length ?ns)"
    using assms(2) by (simp add: guard_def np_ge_def n_hat_Num [OF ne])
  ultimately show False using small by linarith
qed

lemma point_scan_no_guard:
  "\<forall>r \<in> set rs. \<not> guard self dm p r \<Longrightarrow> point_scan self dm p rs s = s"
  by (induction rs) simp_all

lemma guard_false_small: "length X < 20 \<Longrightarrow> p < length X \<Longrightarrow> \<not> guard self (dist_matrix X) p r"
  using guard_needs_twenty [of p X self r] by fastforce

lemma calculate_decision_score_small:
  assumes "length X < 20"
  shows "calculate_decision_score self X = Inr (replicate (length X) (Num 0))"
proof -
  have "map (point_score self X) [0..<length X] = replicate (length X) (Num 0)"
    by (intro nth_equalityI)
      (simp_all add: point_score_def point_scan_no_guard guard_false_small [OF assms])
  then show ?thesis by (simp add: calculate_decision_score_eq)
qed

text \<open>
  C3: in a dataset with fewer than 20 points the guard \<open>n_hat >= 20\<close> holds at no radius
  for any point, and the scoring procedure returns the score \<open>0\<close> for every point.
\<close>

theorem small_dataset_scores_zero:
  assumes "length X < 20"
  shows "(\<forall>p<length X. \<forall>r. \<not> guard self (dist_matrix X) p r) \<and>
         calculate_decision_score self X = Inr (replicate (length X) (Num 0))"
  using guard_false_small [OF assms] calculate_decision_score_small [OF assms] by blast

theorem small_dataset_scores_zero_witness:
  "length X3 < 20 \<and> \<not> guard cfg0 (dist_matrix X3) 0 (Num 4) \<and>
   calculate_decision_score cfg0 X3 = Inr [Num 0, Num 0, Num 0]"
proof -
  have h: "length X3 < 20" by (simp add: X3_def)
  have "replicate (length X3) (Num 0) = [Num 0, Num 0, Num 0]"
    by (simp add: X3_def)
  then show ?thesis
    using small_dataset_scores_zero [OF h, of cfg0] h by (simp add: X3_def)
qed

subsection \<open>Critical radii\<close>

lemma np_insort_Num: "np_insort (Num x) (map Num xs) = map Num (insort x xs)"
  by (induction xs) simp_all

lemma np_sort_Num: "np_sort (map Num xs) = map Num (sort xs)"
  unfolding np_sort_def sort_key_def
  by (induction xs) (simp_all add: np_insort_Num)

lemma mset_np_insort: "mset (np_insort x xs) = add_mset x (mset xs)"
  by (induction xs) simp_all

lemma mset_np_sort: "mset (np_sort xs) = mset xs"
  unfolding np_sort_def by (induction xs) (simp_all add: mset_np_insort)

lemma set_np_sort: "set (np_sort xs) = set xs"
  using mset_np_sort [of xs] by (metis set_mset_mset)

lemma length_np_sort: "length (np_sort xs) = length xs"
  using mset_np_sort [of xs] by (metis size_mset)

lemma sort_le_total: "sort_le a b \<or> sort_le b a"
  by (cases a; cases b) auto

lemma sort_le_trans: "sort_le a b \<Longrightarrow> sort_le b c \<Longrightarrow> sort_le a c"
  by (cases a; cases b; cases c) auto

lemma set_np_insort: "set (np_insort x xs) = insert x (set xs)"
  using mset_np_insort [of x xs] by (metis set_mset_add_mset_insert set_mset_mset)

lemma sorted_np_insort:
  "sorted_wrt sort_le xs \<Longrightarrow> sorted_wrt sort_le (np_insort x xs)"
proof (induction xs)
  case Nil
  then show ?case by simp
next
  case (Cons y ys)
  show ?case
  proof (cases "sort_le x y")
    case True
    then show ?thesis using Cons.prems by (auto intro: sort_le_trans)
  next
    case False
    then have "sort_le y x" using sort_le_total by blast
    then show ?thesis using False Cons by (auto simp: set_np_insort)
  qed
qed

lemma sorted_np_sort: "sorted_wrt sort_le (np_sort xs)"
  unfolding np_sort_def by (induction xs) (simp_all add: sorted_np_insort)

lemma masked_distances_Num:
  "masked_distances ds (Num r_max) (Num r_min) = filter (\<lambda>d. r_min < d \<and> d \<le> r_max) ds"
  by (simp add: masked_distances_def)

lemma matrix_max_dist_matrix:
  assumes "X \<noteq> []"
  shows "matrix_max (dist_matrix X) = Max ((\<lambda>(u, v). euclidean u v) ` (set X \<times> set X))"
proof -
  have "set (concat (dist_matrix X)) = (\<lambda>(u, v). euclidean u v) ` (set X \<times> set X)"
    by (auto simp: dist_matrix_def)
  then show ?thesis by (simp add: matrix_max_def)
qed

text \<open>
  C6: for a point \<open>p\<close> the critical values are the kept distances (those of row \<open>p\<close> above
  \<open>r_min\<close> and at most \<open>r_max\<close>) followed by the kept distances divided by \<open>alpha\<close>, put in
  ascending order with no value dropped: twice as many values as kept distances. The
  scoring run computes them for every point with \<open>r_min = 0\<close> and the one \<open>r_max\<close>,
  the largest pairwise distance of the dataset divided by \<open>alpha\<close>.
\<close>

theorem critical_values_sorted_concat:
  assumes "p < length dm" and "q < length X"
  shows "(\<exists>cv. get_critical_values self dm p (Num r_max) (Num r_min) = Inr cv \<and>
           sorted_wrt sort_le cv \<and>
           mset cv =
             mset (map Num (filter (\<lambda>d. r_min < d \<and> d \<le> r_max) (dm ! p)) @
                   map (\<lambda>d. np_div (Num d) (Num (alpha self)))
                     (filter (\<lambda>d. r_min < d \<and> d \<le> r_max) (dm ! p))) \<and>
           length cv = 2 * length (filter (\<lambda>d. r_min < d \<and> d \<le> r_max) (dm ! p)) \<and>
           (alpha self \<noteq> 0 \<longrightarrow>
              cv = map Num (sort (filter (\<lambda>d. r_min < d \<and> d \<le> r_max) (dm ! p) @
                                  map (\<lambda>d. d / alpha self)
                                    (filter (\<lambda>d. r_min < d \<and> d \<le> r_max) (dm ! p)))))) \<and>
         run_r_max self X =
           np_div (Num (Max ((\<lambda>(u, v). euclidean u v) ` (set X \<times> set X)))) (Num (alpha self)) \<and>
         get_critical_values self (dist_matrix X) q (run_r_max self X) (Num 0) =
           Inr (critical_values self X q) \<and>
         calculate_decision_score self X =
           Inr (map (\<lambda>q. point_scan self (dist_matrix X) q (critical_values self X q) (Num 0))
                  [0..<length X])"
proof -
  let ?ds = "filter (\<lambda>d. r_min < d \<and> d \<le> r_max) (dm ! p)"
  let ?cv = "np_sort (map Num ?ds @ map (\<lambda>d. np_div (Num d) (Num (alpha self))) ?ds)"
  have cv: "get_critical_values self dm p (Num r_max) (Num r_min) = Inr ?cv"
    using assms(1) by (simp add: get_critical_values_eq masked_distances_Num)
  have fin: "?cv = map Num (sort (?ds @ map (\<lambda>d. d / alpha self) ?ds))" if "alpha self \<noteq> 0"
  proof -
    have "map (\<lambda>d. np_div (Num d) (Num (alpha self))) ?ds = map Num (map (\<lambda>d. d / alpha self) ?ds)"
      using that by simp
    then have "?cv = np_sort (map Num (?ds @ map (\<lambda>d. d / alpha self) ?ds))"
      by (simp del: map_map)
    then show ?thesis by (simp only: np_sort_Num)
  qed
  have first: "\<exists>cv. get_critical_values self dm p (Num r_max) (Num r_min) = Inr cv \<and>
           sorted_wrt sort_le cv \<and>
           mset cv = mset (map Num ?ds @ map (\<lambda>d. np_div (Num d) (Num (alpha self))) ?ds) \<and>
           length cv = 2 * length ?ds \<and>
           (alpha self \<noteq> 0 \<longrightarrow> cv = map Num (sort (?ds @ map (\<lambda>d. d / alpha self) ?ds)))"
    using cv fin sorted_np_sort mset_np_sort length_np_sort by (intro exI [of _ ?cv]) simp
  have X: "X \<noteq> []" using assms(2) by auto
  have rmax: "run_r_max self X =
      np_div (Num (Max ((\<lambda>(u, v). euclidean u v) ` (set X \<times> set X)))) (Num (alpha self))"
    by (simp only: run_r_max_def matrix_max_dist_matrix [OF X])
  have run: "get_critical_values self (dist_matrix X) q (run_r_max self X) (Num 0) =
      Inr (critical_values self X q)"
    using assms(2) by (simp add: get_critical_values_eq length_dist_matrix critical_values_def Let_def)
  have "calculate_decision_score self X =
      Inr (map (\<lambda>q. point_scan self (dist_matrix X) q (critical_values self X q) (Num 0))
                  [0..<length X])"
    by (simp add: calculate_decision_score_eq point_score_def [abs_def])
  with first rmax run show ?thesis by blast
qed

theorem critical_values_sorted_concat_witness:
  "(1::nat) < length (dist_matrix X3) \<and> (1::nat) < length X3 \<and> alpha cfg0 \<noteq> 0 \<and>
   get_critical_values cfg0 (dist_matrix X3) 1 (Num 4) (Num 0) =
     Inr [Num 1, Num 1, Num 2, Num 2] \<and>
   run_r_max cfg0 X3 = Num 4 \<and>
   get_critical_values cfg0 (dist_matrix X3) 1 (run_r_max cfg0 X3) (Num 0) =
     Inr (critical_values cfg0 X3 1) \<and>
   calculate_decision_score cfg0 X3 =
     Inr (map (\<lambda>q. point_scan cfg0 (dist_matrix X3) q (critical_values cfg0 X3 q) (Num 0))
            [0..<length X3])"
proof -
  have h: "(1::nat) < length (dist_matrix X3)" "(1::nat) < length X3"
    by (simp_all add: X3_def dm3)
  have a: "alpha cfg0 \<noteq> 0" by (simp add: cfg0_def)
  have ds: "filter (\<lambda>d. 0 < d \<and> d \<le> 4) (dist_matrix X3 ! 1) = [1, 1]"
    by (simp add: X3_def dm3)
  have srt: "sort ([1, 1] @ map (\<lambda>d. d / alpha cfg0) [1, 1]) = [1, 1, 2, 2 :: real]"
    by (simp add: cfg0_def)
  have mx: "run_r_max cfg0 X3 = Num 4"
    by (simp add: run_r_max_def X3_def dm3 matrix_max_def cfg0_def)
  from critical_values_sorted_concat [OF h, of cfg0 4 0]
  show ?thesis
    using h a mx unfolding ds srt by auto
qed

subsection \<open>The divisions of the loop body\<close>

lemma matrix_max_nonneg:
  assumes "X \<noteq> []"
  shows "0 \<le> matrix_max (dist_matrix X)"
proof -
  let ?A = "(\<lambda>(u, v). euclidean u v) ` (set X \<times> set X)"
  have "finite ?A" "?A \<noteq> {}" using assms by auto
  then have "Max ?A \<in> ?A" by (rule Max_in)
  then show ?thesis
    unfolding matrix_max_dist_matrix [OF assms] using euclidean_nonneg by auto
qed

lemma critical_values_pos:
  assumes "alpha self \<noteq> 0" and "p < length X" and "r \<in> set (critical_values self X p)"
  shows "0 < alpha self \<and> (\<exists>x. r = Num x \<and> 0 < x)"
proof -
  have X: "X \<noteq> []" using assms(2) by auto
  let ?rm = "matrix_max (dist_matrix X) / alpha self"
  let ?ds = "filter (\<lambda>d. 0 < d \<and> d \<le> ?rm) (dist_matrix X ! p)"
  have rm: "run_r_max self X = Num ?rm"
    using assms(1) by (simp add: run_r_max_def)
  have r: "r \<in> Num ` set ?ds \<union> (\<lambda>d. Num (d / alpha self)) ` set ?ds"
    using assms(1,3) by (auto simp: critical_values_def rm masked_distances_Num set_np_sort Let_def)
  then obtain d where d: "d \<in> set ?ds" "r = Num d \<or> r = Num (d / alpha self)" by auto
  have pos: "0 < alpha self"
  proof (rule ccontr)
    assume "\<not> 0 < alpha self"
    then have "alpha self < 0" using assms(1) by simp
    then have "?rm \<le> 0"
      using matrix_max_nonneg [OF X] by (simp add: divide_nonneg_neg divide_le_0_iff)
    then show False using d(1) by auto
  qed
  then show ?thesis using d by auto
qed

lemma sampling_self:
  "p < length X \<Longrightarrow> 0 \<le> x \<Longrightarrow> p \<in> set (sampling (dist_matrix X) p (Num x))"
  by (simp add: set_sampling length_dist_matrix_row dist_matrix_diag)



lemma own_count_in_n_values:
  "p < length X \<Longrightarrow> 0 \<le> x \<Longrightarrow>
   alpha_count self (dist_matrix X) p (Num x) \<in> set (n_values self (dist_matrix X) p (Num x))"
  using sampling_self [of p X x] by (auto simp: n_values_def)


lemma np_std_counts:
  assumes "ns \<noteq> []"
  shows "\<exists>sd. np_std (of_counts ns) = Num sd \<and> 0 \<le> sd"
proof -
  have "map real ns \<noteq> []" using assms by simp
  from np_std_Num [OF this] show ?thesis
    unfolding of_counts_map by (intro exI conjI, assumption) (rule real_sqrt_ge_zero,
      intro divide_nonneg_nonneg sum_list_nonneg, auto)
qed



lemma critical_values_X3_0: "critical_values cfg0 X3 0 = [Num 1, Num 2, Num 2, Num 4]"
  by (simp add: critical_values_def run_r_max_def X3_def dm3 matrix_max_def cfg0_def
      masked_distances_def np_sort_def)




subsection \<open>The scan of one point\<close>

lemma length_calculate_decision_score:
  "calculate_decision_score self X = Inr scores \<Longrightarrow> length scores = length X"
  by (auto simp: calculate_decision_score_eq)

lemma score_at_eq: "p < length X \<Longrightarrow> score_at self X p = Inr (point_score self X p)"
  by (simp add: score_at_def calculate_decision_score_eq)

lemma early_exit_guard: "early_exit self dm p r \<Longrightarrow> guard self dm p r"
  by (simp add: early_exit_def)

lemma point_scan_outcome: "point_scan self dm p rs s = scan_outcome self dm p rs s"
proof (induction rs arbitrary: s)
  case Nil
  then show ?case by (simp add: scan_outcome_def)
next
  case (Cons r rs)
  show ?case
  proof (cases "guard self dm p r")
    case False
    then have "\<not> early_exit self dm p r" using early_exit_guard by blast
    with False Cons.IH [of s] show ?thesis by (simp add: scan_outcome_def)
  next
    case True
    show ?thesis
    proof (cases "early_exit self dm p r")
      case True
      with \<open>guard self dm p r\<close> show ?thesis by (simp add: scan_outcome_def)
    next
      case False
      with True Cons.IH [of "ratio self dm p r"] show ?thesis
        by (simp add: scan_outcome_def split: list.splits)
    qed
  qed
qed

lemma processed_stop:
  "\<forall>r' \<in> set pre. \<not> stop r' \<Longrightarrow> stop r \<Longrightarrow> processed stop (pre @ r # post) = pre @ [r]"
  by (induction pre) simp_all

lemma processed_no_stop: "\<forall>r \<in> set rs. \<not> stop r \<Longrightarrow> processed stop rs = rs"
  by (induction rs) simp_all

lemma scan_outcome_stop:
  assumes "\<forall>r' \<in> set pre. \<not> early_exit self dm p r'" and "early_exit self dm p r"
  shows "scan_outcome self dm p (pre @ r # post) s = ratio self dm p r"
proof -
  have f: "filter (guard self dm p) (pre @ [r]) = filter (guard self dm p) pre @ [r]"
    using early_exit_guard [OF assms(2)] by simp
  obtain g gs where e: "filter (guard self dm p) pre @ [r] = g # gs"
    by (cases "filter (guard self dm p) pre") auto
  have "last (g # gs) = r" using e by (metis last_snoc)
  then show ?thesis
    unfolding scan_outcome_def processed_stop [of pre "early_exit self dm p", OF assms] f e
    by simp
qed

text \<open>
  C2: the critical values of a point are in ascending order, and its score is the ratio
  \<open>mdef / sigma_mdef\<close> at the last radius satisfying the guard among the radii that its
  scan passes through in that order, and \<open>0\<close> when there is none: each such radius
  overwrites the score. The scan passes through no radius after the first one at which the guard holds
  and \<open>mdef > threshold * sigma_mdef\<close>: the score is the ratio at that radius, whatever
  the later radii are. When no radius stops the scan, the score is the ratio at the last
  critical value satisfying the guard.
\<close>

theorem scan_overwrites_and_stops:
  assumes "p < length X"
  shows "sorted_wrt sort_le (critical_values self X p) \<and>
         score_at self X p =
           Inr (scan_outcome self (dist_matrix X) p (critical_values self X p) (Num 0)) \<and>
         (\<forall>pre r post.
            critical_values self X p = pre @ r # post \<and>
            (\<forall>r' \<in> set pre. \<not> early_exit self (dist_matrix X) p r') \<and>
            early_exit self (dist_matrix X) p r \<longrightarrow>
            score_at self X p = Inr (ratio self (dist_matrix X) p r)) \<and>
         ((\<forall>r \<in> set (critical_values self X p). \<not> early_exit self (dist_matrix X) p r) \<longrightarrow>
            score_at self X p =
              Inr (case filter (guard self (dist_matrix X) p) (critical_values self X p) of
                     [] \<Rightarrow> Num 0
                   | g # gs \<Rightarrow> ratio self (dist_matrix X) p (last (g # gs))))"
proof -
  have eq: "score_at self X p =
      Inr (scan_outcome self (dist_matrix X) p (critical_values self X p) (Num 0))"
    by (simp add: score_at_eq [OF assms] point_score_def point_scan_outcome)
  have stop: "score_at self X p = Inr (ratio self (dist_matrix X) p r)"
    if "critical_values self X p = pre @ r # post"
      "\<forall>r' \<in> set pre. \<not> early_exit self (dist_matrix X) p r'"
      "early_exit self (dist_matrix X) p r" for pre r post
    using that by (simp add: eq scan_outcome_stop)
  have all: "score_at self X p =
      Inr (case filter (guard self (dist_matrix X) p) (critical_values self X p) of
             [] \<Rightarrow> Num 0
           | g # gs \<Rightarrow> ratio self (dist_matrix X) p (last (g # gs)))"
    if "\<forall>r \<in> set (critical_values self X p). \<not> early_exit self (dist_matrix X) p r"
    using processed_no_stop [OF that] by (simp add: eq scan_outcome_def)
  have "sorted_wrt sort_le (critical_values self X p)"
    by (simp add: critical_values_def Let_def sorted_np_sort)
  then show ?thesis using eq stop all by blast
qed

lemma filter_last_nth:
  assumes "i < length xs" and "P (xs ! i)" and "\<forall>j<length xs. i < j \<longrightarrow> \<not> P (xs ! j)"
  shows "filter P xs = filter P (take i xs) @ [xs ! i]"
proof -
  have "\<not> P y" if "y \<in> set (drop (Suc i) xs)" for y
  proof -
    from that obtain k where k: "k < length (drop (Suc i) xs)" "y = drop (Suc i) xs ! k"
      by (auto simp: in_set_conv_nth)
    then have "y = xs ! (Suc i + k)" "Suc i + k < length xs" by simp_all
    with assms(3) show ?thesis by simp
  qed
  then have "filter P (drop (Suc i) xs) = []" by (simp add: filter_empty_conv)
  moreover have "xs = take i xs @ xs ! i # drop (Suc i) xs"
    using assms(1) by (rule id_take_nth_drop)
  ultimately show ?thesis
    using assms(2) by (metis filter.simps(2) filter_append)
qed

lemma scan_outcome_first_stop:
  assumes "i < length rs" and "early_exit self dm p (rs ! i)"
    and "\<forall>j<i. \<not> early_exit self dm p (rs ! j)"
  shows "scan_outcome self dm p rs s = ratio self dm p (rs ! i)"
proof -
  have pre: "\<forall>r' \<in> set (take i rs). \<not> early_exit self dm p r'"
    using assms(1,3) by (auto simp: in_set_conv_nth)
  have "rs = take i rs @ rs ! i # drop (Suc i) rs"
    using assms(1) by (rule id_take_nth_drop)
  then have "scan_outcome self dm p rs s =
      scan_outcome self dm p (take i rs @ rs ! i # drop (Suc i) rs) s" by simp
  also have "\<dots> = ratio self dm p (rs ! i)"
    by (rule scan_outcome_stop [OF pre assms(2)])
  finally show ?thesis .
qed

lemma scan_outcome_last_guard:
  assumes "i < length rs" and "\<forall>j<length rs. \<not> early_exit self dm p (rs ! j)"
    and "guard self dm p (rs ! i)"
    and "\<forall>j<length rs. i < j \<longrightarrow> \<not> guard self dm p (rs ! j)"
  shows "scan_outcome self dm p rs s = ratio self dm p (rs ! i)"
proof -
  have "\<forall>r \<in> set rs. \<not> early_exit self dm p r"
    using assms(2) by (auto simp: in_set_conv_nth)
  then have pr: "processed (early_exit self dm p) rs = rs" by (rule processed_no_stop)
  have f: "filter (guard self dm p) rs = filter (guard self dm p) (take i rs) @ [rs ! i]"
    by (rule filter_last_nth [OF assms(1,3,4)])
  obtain g gs where e: "filter (guard self dm p) (take i rs) @ [rs ! i] = g # gs"
    by (cases "filter (guard self dm p) (take i rs)") auto
  have "last (g # gs) = rs ! i" using e by (metis last_snoc)
  then show ?thesis unfolding scan_outcome_def pr f e by simp
qed

text \<open>
  C1, as the code has it: the score of a point is \<open>0\<close> when no tested critical radius
  satisfies the guard \<open>n_hat >= 20\<close>. When some tested radius stops the scan (the guard
  holds and \<open>mdef > threshold * sigma_mdef\<close>), the score is the ratio
  \<open>mdef / sigma_mdef\<close> at the first such radius. When no tested radius stops the scan, the
  score is the ratio at the last tested radius satisfying the guard, which need not give
  the largest ratio.
\<close>

theorem score_is_tested_ratio:
  assumes "p < length X"
  shows "((\<forall>r \<in> set (critical_values self X p). \<not> guard self (dist_matrix X) p r) \<longrightarrow>
            score_at self X p = Inr (Num 0)) \<and>
         (\<forall>i<length (critical_values self X p).
            early_exit self (dist_matrix X) p (critical_values self X p ! i) \<and>
            (\<forall>j<i. \<not> early_exit self (dist_matrix X) p (critical_values self X p ! j)) \<longrightarrow>
            score_at self X p =
              Inr (ratio self (dist_matrix X) p (critical_values self X p ! i))) \<and>
         (\<forall>i<length (critical_values self X p).
            (\<forall>j<length (critical_values self X p).
               \<not> early_exit self (dist_matrix X) p (critical_values self X p ! j)) \<and>
            guard self (dist_matrix X) p (critical_values self X p ! i) \<and>
            (\<forall>j<length (critical_values self X p).
               i < j \<longrightarrow> \<not> guard self (dist_matrix X) p (critical_values self X p ! j)) \<longrightarrow>
            score_at self X p =
              Inr (ratio self (dist_matrix X) p (critical_values self X p ! i)))"
proof -
  let ?dm = "dist_matrix X" and ?cv = "critical_values self X p"
  have eq: "score_at self X p = Inr (scan_outcome self ?dm p ?cv (Num 0))"
    by (simp add: score_at_eq [OF assms] point_score_def point_scan_outcome)
  have none: "score_at self X p = Inr (Num 0)" if "\<forall>r \<in> set ?cv. \<not> guard self ?dm p r"
    using that by (simp add: score_at_eq [OF assms] point_score_def point_scan_no_guard)
  have stop: "score_at self X p = Inr (ratio self ?dm p (?cv ! i))"
    if "i < length ?cv" "early_exit self ?dm p (?cv ! i)"
      "\<forall>j<i. \<not> early_exit self ?dm p (?cv ! j)" for i
    using scan_outcome_first_stop [OF that] by (simp add: eq)
  have last: "score_at self X p = Inr (ratio self ?dm p (?cv ! i))"
    if "i < length ?cv" "\<forall>j<length ?cv. \<not> early_exit self ?dm p (?cv ! j)"
      "guard self ?dm p (?cv ! i)"
      "\<forall>j<length ?cv. i < j \<longrightarrow> \<not> guard self ?dm p (?cv ! j)" for i
    using scan_outcome_last_guard [OF that] by (simp add: eq)
  show ?thesis using none stop last by blast
qed

subsection \<open>Finite scores and NaN\<close>

lemma point_scan_cases:
  "point_scan self dm p rs s = s \<or>
   (\<exists>r \<in> set rs. guard self dm p r \<and> point_scan self dm p rs s = ratio self dm p r)"
proof (induction rs arbitrary: s)
  case Nil
  then show ?case by simp
next
  case (Cons r rs)
  show ?case
    using Cons.IH [of s] Cons.IH [of "ratio self dm p r"] by auto
qed

lemma std_zero_all_equal:
  assumes "ns \<noteq> []" and "np_std (of_counts ns) = Num 0" and "c \<in> set ns"
  shows "real c = sum_list (map real ns) / real (length ns)"
proof -
  let ?m = "sum_list (map real ns) / real (length ns)"
  let ?sq = "map (\<lambda>x. (x - ?m)\<^sup>2) (map real ns)"
  have ne: "map real ns \<noteq> []" using assms(1) by simp
  have "sqrt (sum_list ?sq / real (length (map real ns))) = 0"
    using np_std_Num [OF ne] assms(2) by (simp add: of_counts_map)
  then have "sum_list ?sq = 0" using assms(1) by simp
  moreover have "\<And>y. y \<in> set ?sq \<Longrightarrow> 0 \<le> y" by auto
  ultimately have "\<forall>y \<in> set ?sq. y = 0"
    using sum_list_nonneg_eq_0_iff [of ?sq] by blast
  moreover have "(real c - ?m)\<^sup>2 \<in> set ?sq" using assms(3) by auto
  ultimately have "(real c - ?m)\<^sup>2 = 0" by blast
  then show ?thesis by simp
qed

lemma ratio_num_or_nan:
  assumes "p < length X" and "0 \<le> x" and "guard self (dist_matrix X) p (Num x)"
  shows "if np_std (of_counts (n_values self (dist_matrix X) p (Num x))) = Num 0
         then ratio self (dist_matrix X) p (Num x) = NaN
         else \<exists>y. ratio self (dist_matrix X) p (Num x) = Num y"
proof -
  let ?dm = "dist_matrix X"
  let ?ns = "n_values self ?dm p (Num x)"
  let ?c = "alpha_count self ?dm p (Num x)"
  define h where "h = sum_list (map real ?ns) / real (length ?ns)"
  have mem: "?c \<in> set ?ns"
    using own_count_in_n_values [of p X x self] assms(1,2) by simp
  then have ne: "?ns \<noteq> []" by auto
  have nh: "n_hat self ?dm p (Num x) = Num h"
    unfolding h_def by (rule n_hat_Num [OF ne])
  have h: "20 \<le> h" using assms(3) by (simp add: guard_def np_ge_def nh)
  then have hne: "h \<noteq> 0" by simp
  obtain sd where sd: "np_std (of_counts ?ns) = Num sd" "0 \<le> sd"
    using np_std_counts [OF ne] by blast
  have md: "mdef self ?dm p (Num x) = Num (1 - real ?c / h)"
    using hne by (simp add: mdef_def nh np_sub_def)
  have sg: "sigma_mdef self ?dm p (Num x) = Num (sd / h)"
    using hne by (simp add: sigma_mdef_def nh sd)
  show ?thesis
  proof (cases "sd = 0")
    case True
    then have "real ?c = h"
      unfolding h_def using std_zero_all_equal [OF ne _ mem] sd(1) by simp
    then have "1 - real ?c / h = 0" using hne by simp
    then show ?thesis using True sd(1) by (simp add: ratio_def md sg)
  next
    case False
    then have "sd / h \<noteq> 0" using hne by simp
    then show ?thesis using False sd(1) by (simp add: ratio_def md sg)
  qed
qed

lemma point_score_num_or_nan:
  assumes "alpha self \<noteq> 0" and "p < length X"
  shows "point_score self X p \<noteq> PInf \<and> point_score self X p \<noteq> NInf \<and>
     ((\<forall>r \<in> set (critical_values self X p).
         guard self (dist_matrix X) p r \<longrightarrow>
         np_std (of_counts (n_values self (dist_matrix X) p r)) \<noteq> Num 0) \<longrightarrow>
      (\<exists>y. point_score self X p = Num y))"
proof -
  let ?dm = "dist_matrix X" and ?cv = "critical_values self X p"
  consider "point_score self X p = Num 0"
    | r where "r \<in> set ?cv" "guard self ?dm p r" "point_score self X p = ratio self ?dm p r"
    using point_scan_cases [of self ?dm p ?cv "Num 0"] by (auto simp: point_score_def)
  then show ?thesis
  proof cases
    case 1
    then show ?thesis by simp
  next
    case 2
    obtain x where x: "r = Num x" "0 < x"
      using critical_values_pos [OF assms 2(1)] by blast
    have g: "guard self ?dm p (Num x)" using 2(2) x(1) by simp
    have "0 \<le> x" using x(2) by simp
    from ratio_num_or_nan [OF assms(2) this g] show ?thesis
      using 2 x(1) by (auto split: if_splits)
  qed
qed

subsection \<open>The fitted attributes\<close>

lemma alpha_count_contamination:
  "alpha_count (self\<lparr>contamination := c\<rparr>) dm i r = alpha_count self dm i r"
  by (simp add: alpha_count_def alpha_mask_def alpha_radius_def)

lemma n_values_contamination:
  "n_values (self\<lparr>contamination := c\<rparr>) dm p r = n_values self dm p r"
  by (simp add: n_values_def alpha_count_contamination)

lemma n_hat_contamination: "n_hat (self\<lparr>contamination := c\<rparr>) dm p r = n_hat self dm p r"
  by (simp add: n_hat_def n_values_contamination)

lemma mdef_contamination: "mdef (self\<lparr>contamination := c\<rparr>) dm p r = mdef self dm p r"
  by (simp add: mdef_def n_hat_contamination alpha_count_contamination)

lemma sigma_mdef_contamination:
  "sigma_mdef (self\<lparr>contamination := c\<rparr>) dm p r = sigma_mdef self dm p r"
  by (simp add: sigma_mdef_def n_hat_contamination n_values_contamination)

lemma guard_contamination: "guard (self\<lparr>contamination := c\<rparr>) dm p r = guard self dm p r"
  by (simp add: guard_def n_hat_contamination)

lemma ratio_contamination: "ratio (self\<lparr>contamination := c\<rparr>) dm p r = ratio self dm p r"
  by (simp add: ratio_def mdef_contamination sigma_mdef_contamination)

lemma early_exit_contamination:
  "early_exit (self\<lparr>contamination := c\<rparr>) dm p r = early_exit self dm p r"
  by (simp add: early_exit_def guard_contamination mdef_contamination sigma_mdef_contamination)

lemma point_scan_contamination:
  "point_scan (self\<lparr>contamination := c\<rparr>) dm p rs s = point_scan self dm p rs s"
  by (induction rs arbitrary: s)
    (simp_all add: guard_contamination ratio_contamination early_exit_contamination)

lemma point_score_contamination:
  "point_score (self\<lparr>contamination := c\<rparr>) X = point_score self X"
  by (rule ext)
    (simp add: point_score_def point_scan_contamination critical_values_def run_r_max_def)

lemma cfg0_sel: "alpha cfg0 = 1 / 2" "threshold cfg0 = 3"
  by (simp_all add: cfg0_def)

text \<open>
  C9: a fit of a dataset that \<open>check_array\<close> accepts returns; the scores it stores are
  those of the scoring procedure; the labels are, entry by entry, \<open>1\<close> where the score is
  above \<open>threshold_\<close> and \<open>0\<close> elsewhere; \<open>_mu\<close> and \<open>_sigma\<close> are \<open>np.mean\<close> and \<open>np.std\<close>
  of all the scores, which for scores that are numbers are their mean and the square
  root of their mean squared deviation; and another \<open>contamination\<close> gives the same
  fitted attributes.
\<close>

theorem fit_labels_threshold:
  assumes "check_array X = Inr X"
  shows "\<exists>st. fit self X = Inr st \<and>
         fit (self\<lparr>contamination := c\<rparr>) X = Inr st \<and>
         calculate_decision_score self X = Inr (decision_scores st) \<and>
         length (decision_scores st) = length X \<and>
         length (labels st) = length X \<and>
         (\<forall>i<length X. labels st ! i =
            (if np_gt (decision_scores st ! i) (Num (threshold self)) then 1 else 0)) \<and>
         mu st = np_mean (decision_scores st) \<and>
         sigma st = np_std (decision_scores st) \<and>
         (\<forall>xs. decision_scores st = map Num xs \<longrightarrow>
            mu st = Num (sum_list xs / real (length xs)) \<and>
            sigma st = Num (sqrt (sum_list (map (\<lambda>x. (x - sum_list xs / real (length xs))\<^sup>2) xs) /
                                  real (length xs))))"
proof -
  obtain scores where sc: "calculate_decision_score self X = Inr scores"
    by (simp add: calculate_decision_score_eq)
  define st where "st = \<lparr> decision_scores = scores,
      labels = map (\<lambda>s. if np_gt s (Num (threshold self)) then 1 else 0) scores,
      mu = np_mean scores, sigma = np_std scores \<rparr>"
  have f: "fit self X = Inr st"
    by (simp add: fit_def assms sc st_def)
  have len: "length scores = length X"
    using length_calculate_decision_score [OF sc] .
  have ne: "X \<noteq> []"
    using assms by (auto simp: check_array_def split: if_splits)
  have fin: "mu st = Num (sum_list xs / real (length xs)) \<and>
      sigma st = Num (sqrt (sum_list (map (\<lambda>x. (x - sum_list xs / real (length xs))\<^sup>2) xs) /
                            real (length xs)))"
    if "decision_scores st = map Num xs" for xs
  proof -
    have "xs \<noteq> []" using that len ne by (auto simp: st_def)
    then show ?thesis
      using that np_mean_Num [of xs] np_std_Num [of xs] by (simp add: st_def)
  qed
  have same: "calculate_decision_score (self\<lparr>contamination := c\<rparr>) X = Inr scores"
    using sc by (simp add: calculate_decision_score_eq point_score_contamination)
  have f': "fit (self\<lparr>contamination := c\<rparr>) X = Inr st"
    by (simp add: fit_def assms same st_def)
  have "calculate_decision_score self X = Inr (decision_scores st) \<and>
      length (decision_scores st) = length X \<and> length (labels st) = length X \<and>
      (\<forall>i<length X. labels st ! i =
         (if np_gt (decision_scores st ! i) (Num (threshold self)) then 1 else 0)) \<and>
      mu st = np_mean (decision_scores st) \<and> sigma st = np_std (decision_scores st)"
    using sc len by (simp add: st_def)
  with f f' fin show ?thesis by blast
qed

subsection \<open>Worked datasets\<close>

lemma euclidean_1d: "euclidean [a] [b] = \<bar>a - b\<bar>"
  by (simp add: euclidean_def)

lemmas count_evals = n_values_def sampling_def nonzero_def alpha_count_def alpha_mask_def
  alpha_radius_cfg0 count_nonzero_def upt_rec eval_nat_numeral

lemmas stat_evals = of_counts_def np_std_def np_mean_def np_sum_def np_sub_def eval_nat_numeral

lemma no_exit_nonpos:
  assumes "mdef self dm p r = Num m" and "sigma_mdef self dm p r = Num s"
    and "m \<le> 0" and "0 \<le> threshold self * s"
  shows "\<not> early_exit self dm p r"
  using assms by (simp add: early_exit_def np_gt_def)

text \<open>The first point of \<open>X24\<close>: the guard holds at all its radii and none stops the scan.\<close>

lemma dm24: "dist_matrix X24 = D24"
  by (simp add: dist_matrix_def X24_def D24_def euclidean_1d)

lemma mx24: "matrix_max D24 = 3"
  by (simp add: matrix_max_def D24_def eval_nat_numeral)

lemma cv24: "critical_values cfg0 X24 0 = [Num 1, Num 2, Num 3, Num 3, Num 6, Num 6]"
  by (simp add: critical_values_def run_r_max_def dm24 mx24 cfg0_sel masked_distances_def
      np_sort_def)
    (simp add: D24_def eval_nat_numeral)

lemma nv24_1: "n_values cfg0 D24 0 (Num 1) = replicate 21 21 @ [1]"
  by (simp add: count_evals D24_def)

lemma nv24_2: "n_values cfg0 D24 0 (Num 2) = replicate 21 21 @ [1]"
  by (simp add: count_evals D24_def)

lemma nv24_3: "n_values cfg0 D24 0 (Num 3) = replicate 22 22 @ [2, 2]"
  by (simp add: count_evals D24_def)

lemma nv24_6: "n_values cfg0 D24 0 (Num 6) = replicate 21 22 @ [24, 3, 3]"
  by (simp add: count_evals D24_def)

lemma ac24:
  "alpha_count cfg0 D24 0 (Num 1) = 21" "alpha_count cfg0 D24 0 (Num 2) = 21"
  "alpha_count cfg0 D24 0 (Num 3) = 22" "alpha_count cfg0 D24 0 (Num 6) = 22"
  by (simp_all add: count_evals D24_def)

lemma nh24:
  "n_hat cfg0 D24 0 (Num 1) = Num (221 / 11)" "n_hat cfg0 D24 0 (Num 2) = Num (221 / 11)"
  "n_hat cfg0 D24 0 (Num 3) = Num (61 / 3)" "n_hat cfg0 D24 0 (Num 6) = Num (41 / 2)"
  by (simp_all add: n_hat_def nv24_1 nv24_2 nv24_3 nv24_6 stat_evals)

lemma sd24:
  "np_std (of_counts (n_values cfg0 D24 0 (Num 1))) = Num (sqrt (2100 / 121))"
  "np_std (of_counts (n_values cfg0 D24 0 (Num 2))) = Num (sqrt (2100 / 121))"
  "np_std (of_counts (n_values cfg0 D24 0 (Num 3))) = Num (sqrt (275 / 9))"
  "np_std (of_counts (n_values cfg0 D24 0 (Num 6))) = Num (sqrt 28)"
  by (simp_all add: nv24_1 nv24_2 nv24_3 nv24_6 stat_evals)

lemma md24:
  "mdef cfg0 D24 0 (Num 1) = Num (- (10 / 221))" "mdef cfg0 D24 0 (Num 2) = Num (- (10 / 221))"
  "mdef cfg0 D24 0 (Num 3) = Num (- (5 / 61))" "mdef cfg0 D24 0 (Num 6) = Num (- (3 / 41))"
  by (simp_all add: mdef_def nh24 ac24 np_sub_def)

lemma sg24:
  "sigma_mdef cfg0 D24 0 (Num 1) = Num (sqrt (2100 / 121) / (221 / 11))"
  "sigma_mdef cfg0 D24 0 (Num 2) = Num (sqrt (2100 / 121) / (221 / 11))"
  "sigma_mdef cfg0 D24 0 (Num 3) = Num (sqrt (275 / 9) / (61 / 3))"
  "sigma_mdef cfg0 D24 0 (Num 6) = Num (sqrt 28 / (41 / 2))"
  by (simp_all add: sigma_mdef_def nh24 sd24)

lemma guard24:
  "guard cfg0 D24 0 (Num 1)" "guard cfg0 D24 0 (Num 2)"
  "guard cfg0 D24 0 (Num 3)" "guard cfg0 D24 0 (Num 6)"
  by (simp_all add: guard_def nh24 np_ge_def)

lemma no_exit24:
  "\<not> early_exit cfg0 D24 0 (Num 1)" "\<not> early_exit cfg0 D24 0 (Num 2)"
  "\<not> early_exit cfg0 D24 0 (Num 3)" "\<not> early_exit cfg0 D24 0 (Num 6)"
  by (rule no_exit_nonpos [OF md24(1) sg24(1)], simp, simp add: cfg0_sel,
      rule no_exit_nonpos [OF md24(2) sg24(2)], simp, simp add: cfg0_sel,
      rule no_exit_nonpos [OF md24(3) sg24(3)], simp, simp add: cfg0_sel,
      rule no_exit_nonpos [OF md24(4) sg24(4)], simp, simp add: cfg0_sel)

lemma ratio24_1: "ratio cfg0 D24 0 (Num 1) = Num (- (10 / 221) / (sqrt (2100 / 121) / (221 / 11)))"
  by (simp add: ratio_def md24 sg24)

lemma ratio24_6: "ratio cfg0 D24 0 (Num 6) = Num (- (3 / 41) / (sqrt 28 / (41 / 2)))"
  by (simp add: ratio_def md24 sg24)

lemma point_score24: "point_score cfg0 X24 0 = ratio cfg0 D24 0 (Num 6)"
  by (simp add: point_score_def cv24 dm24 guard24 no_exit24)

lemma ratio24_less:
  "- (3 / 41) / (sqrt 28 / (41 / 2)) < - (10 / 221) / (sqrt (2100 / 121) / (221 / 11 :: real))"
proof -
  have a: "- (3 / 41) / (sqrt 28 / (41 / 2)) = - ((3 / 2) / sqrt 28)"
    by (simp add: field_simps)
  have b: "- (10 / 221) / (sqrt (2100 / 121) / (221 / 11)) = - ((10 / 11) / sqrt (2100 / 121))"
    by (simp add: field_simps)
  have "((10 / 11) / sqrt (2100 / 121))\<^sup>2 < ((3 / 2) / sqrt 28)\<^sup>2"
    by (simp add: power_divide)
  moreover have "0 \<le> (3 / 2) / sqrt 28" by simp
  ultimately have "(10 / 11) / sqrt (2100 / 121) < (3 / 2) / sqrt 28"
    by (rule power2_less_imp_less)
  then show ?thesis unfolding a b by simp
qed

text \<open>
  The last point of \<open>X26\<close>, the one away from the others: its first radius stops the
  scan. The other points have the same row of distances as the first one.
\<close>

lemma dm26: "dist_matrix X26 = D26"
  by (simp add: dist_matrix_def X26_def D26_def euclidean_1d)

lemma mx26: "matrix_max D26 = 1"
  by (simp add: matrix_max_def D26_def eval_nat_numeral)

lemma cv26_25:
  "critical_values cfg0 X26 25 = Num 1 # (replicate 24 (Num 1) @ replicate 25 (Num 2))"
  by (simp add: critical_values_def run_r_max_def dm26 mx26 cfg0_sel masked_distances_def
      np_sort_def)
    (simp add: D26_def eval_nat_numeral)

lemma cv26_0: "critical_values cfg0 X26 0 = [Num 1, Num 2]"
  by (simp add: critical_values_def run_r_max_def dm26 mx26 cfg0_sel masked_distances_def
      np_sort_def)
    (simp add: D26_def eval_nat_numeral)

lemma nv26:
  "n_values cfg0 D26 25 (Num 1) = replicate 25 25 @ [1]"
  "n_values cfg0 D26 0 (Num 1) = replicate 25 25 @ [1]"
  "n_values cfg0 D26 0 (Num 2) = replicate 25 25 @ [1]"
  by (simp_all add: count_evals D26_def)

lemma ac26:
  "alpha_count cfg0 D26 25 (Num 1) = 1" "alpha_count cfg0 D26 0 (Num 1) = 25"
  "alpha_count cfg0 D26 0 (Num 2) = 25"
  by (simp_all add: count_evals D26_def)

lemma mean26: "np_mean (of_counts (replicate 25 25 @ [1])) = Num (313 / 13)"
  by (simp add: stat_evals)

lemma nh26:
  "n_hat cfg0 D26 25 (Num 1) = Num (313 / 13)" "n_hat cfg0 D26 0 (Num 1) = Num (313 / 13)"
  "n_hat cfg0 D26 0 (Num 2) = Num (313 / 13)"
  unfolding n_hat_def nv26 mean26 by simp_all

lemma sqrt_3600_169: "sqrt (3600 / 169) = 60 / 13"
  by (rule real_sqrt_unique) (simp_all add: power2_eq_square)

lemma sd26_sqrt: "np_std (of_counts (replicate 25 25 @ [1])) = Num (sqrt (3600 / 169))"
  by (simp add: stat_evals)

lemma sd26: "np_std (of_counts (replicate 25 25 @ [1])) = Num (60 / 13)"
  using sd26_sqrt unfolding sqrt_3600_169 .

lemma md26:
  "mdef cfg0 D26 25 (Num 1) = Num (300 / 313)" "mdef cfg0 D26 0 (Num 1) = Num (- (12 / 313))"
  "mdef cfg0 D26 0 (Num 2) = Num (- (12 / 313))"
  by (simp_all add: mdef_def nh26 ac26 np_sub_def)

lemma sg26:
  "sigma_mdef cfg0 D26 25 (Num 1) = Num (60 / 313)" "sigma_mdef cfg0 D26 0 (Num 1) = Num (60 / 313)"
  "sigma_mdef cfg0 D26 0 (Num 2) = Num (60 / 313)"
  unfolding sigma_mdef_def nh26 nv26 sd26 by simp_all

lemma guard26:
  "guard cfg0 D26 25 (Num 1)" "guard cfg0 D26 0 (Num 1)" "guard cfg0 D26 0 (Num 2)"
  by (simp_all add: guard_def nh26 np_ge_def)

lemma exit26: "early_exit cfg0 D26 25 (Num 1)"
  by (simp add: early_exit_def guard26 md26 sg26 np_gt_def cfg0_sel)

lemma no_exit26: "\<not> early_exit cfg0 D26 0 (Num 1)" "\<not> early_exit cfg0 D26 0 (Num 2)"
  by (simp_all add: early_exit_def md26 sg26 np_gt_def cfg0_sel)

lemma ratio26:
  "ratio cfg0 D26 25 (Num 1) = Num 5" "ratio cfg0 D26 0 (Num 1) = Num (- (1 / 5))"
  "ratio cfg0 D26 0 (Num 2) = Num (- (1 / 5))"
  by (simp_all add: ratio_def md26 sg26)

lemma point_score26_25: "point_score cfg0 X26 25 = Num 5"
  by (simp add: point_score_def cv26_25 dm26 guard26 exit26 ratio26)

lemma point_score26_0: "point_score cfg0 X26 0 = Num (- (1 / 5))"
  by (simp add: point_score_def cv26_0 dm26 guard26 no_exit26 ratio26)

text \<open>The first point of \<open>X40\<close>: all the counts of its neighbourhoods are equal.\<close>

lemma dm40: "dist_matrix X40 = D40"
  by (simp add: dist_matrix_def X40_def D40_def euclidean_1d)

lemma mx40: "matrix_max D40 = 1"
  by (simp add: matrix_max_def D40_def eval_nat_numeral)

lemma cv40: "critical_values cfg0 X40 0 = replicate 20 (Num 1) @ replicate 20 (Num 2)"
  by (simp add: critical_values_def run_r_max_def dm40 mx40 cfg0_sel masked_distances_def
      np_sort_def)
    (simp add: D40_def eval_nat_numeral)

lemma nv40:
  "n_values cfg0 D40 0 (Num 1) = replicate 40 20" "n_values cfg0 D40 0 (Num 2) = replicate 40 20"
  by (simp_all add: count_evals D40_def)

lemma ac40: "alpha_count cfg0 D40 0 (Num 1) = 20" "alpha_count cfg0 D40 0 (Num 2) = 20"
  by (simp_all add: count_evals D40_def)

lemma nh40: "n_hat cfg0 D40 0 (Num 1) = Num 20" "n_hat cfg0 D40 0 (Num 2) = Num 20"
  by (simp_all add: n_hat_def nv40 stat_evals)

lemma sd40: "np_std (of_counts (replicate 40 20)) = Num 0"
  by (simp add: stat_evals)

lemma md40: "mdef cfg0 D40 0 (Num 1) = Num 0" "mdef cfg0 D40 0 (Num 2) = Num 0"
  by (simp_all add: mdef_def nh40 ac40 np_sub_def)

lemma sg40: "sigma_mdef cfg0 D40 0 (Num 1) = Num 0" "sigma_mdef cfg0 D40 0 (Num 2) = Num 0"
  by (simp_all add: sigma_mdef_def nh40 nv40 sd40)

lemma guard40: "guard cfg0 D40 0 (Num 1)" "guard cfg0 D40 0 (Num 2)"
  by (simp_all add: guard_def nh40 np_ge_def)

lemma no_exit40: "\<not> early_exit cfg0 D40 0 (Num 1)" "\<not> early_exit cfg0 D40 0 (Num 2)"
  by (simp_all add: early_exit_def md40 sg40 np_gt_def cfg0_sel)

lemma ratio40: "ratio cfg0 D40 0 (Num 1) = NaN" "ratio cfg0 D40 0 (Num 2) = NaN"
  by (simp_all add: ratio_def md40 sg40)

lemma point_score40: "point_score cfg0 X40 0 = NaN"
  by (simp add: point_score_def cv40 dm40 eval_nat_numeral guard40 no_exit40 ratio40)

text \<open>Points with the same row of distances get the same score.\<close>

lemma alpha_count_row:
  assumes "dm ! p = dm ! q"
  shows "alpha_count self dm p r = alpha_count self dm q r"
  by (simp add: alpha_count_def assms)

lemma n_values_row:
  assumes "dm ! p = dm ! q"
  shows "n_values self dm p r = n_values self dm q r"
  by (simp add: n_values_def sampling_def assms)

lemma n_hat_row:
  assumes "dm ! p = dm ! q"
  shows "n_hat self dm p r = n_hat self dm q r"
  unfolding n_hat_def n_values_row [OF assms] by (rule refl)

lemma mdef_row:
  assumes "dm ! p = dm ! q"
  shows "mdef self dm p r = mdef self dm q r"
  unfolding mdef_def n_hat_row [OF assms] alpha_count_row [OF assms] by (rule refl)

lemma sigma_mdef_row:
  assumes "dm ! p = dm ! q"
  shows "sigma_mdef self dm p r = sigma_mdef self dm q r"
  unfolding sigma_mdef_def n_hat_row [OF assms] n_values_row [OF assms] by (rule refl)

lemma guard_row:
  assumes "dm ! p = dm ! q"
  shows "guard self dm p r = guard self dm q r"
  unfolding guard_def n_hat_row [OF assms] by (rule refl)

lemma ratio_row:
  assumes "dm ! p = dm ! q"
  shows "ratio self dm p r = ratio self dm q r"
  unfolding ratio_def mdef_row [OF assms] sigma_mdef_row [OF assms] by (rule refl)

lemma early_exit_row:
  assumes "dm ! p = dm ! q"
  shows "early_exit self dm p r = early_exit self dm q r"
  unfolding early_exit_def guard_row [OF assms] mdef_row [OF assms] sigma_mdef_row [OF assms]
  by (rule refl)

lemma point_scan_row:
  assumes "dm ! p = dm ! q"
  shows "point_scan self dm p rs s = point_scan self dm q rs s"
proof (induction rs arbitrary: s)
  case Nil
  show ?case by simp
next
  case (Cons r rs)
  show ?case
    unfolding point_scan.simps guard_row [OF assms] ratio_row [OF assms]
      early_exit_row [OF assms] Cons.IH by (rule refl)
qed

lemma point_score_row:
  assumes "dist_matrix X ! p = dist_matrix X ! q"
  shows "point_score self X p = point_score self X q"
  unfolding point_score_def critical_values_def assms point_scan_row [OF assms] by (rule refl)

lemma scores26:
  "calculate_decision_score cfg0 X26 = Inr (replicate 25 (Num (- (1 / 5))) @ [Num 5])"
proof -
  have len: "length X26 = 26" by (simp add: X26_def)
  have "map (point_score cfg0 X26) [0..<26] = replicate 25 (Num (- (1 / 5))) @ [Num 5]"
  proof (intro nth_equalityI)
    show "length (map (point_score cfg0 X26) [0..<26]) =
        length (replicate 25 (Num (- (1 / 5))) @ [Num 5])" by simp
  next
    fix i assume "i < length (map (point_score cfg0 X26) [0..<26])"
    then have i: "i < 26" by simp
    show "map (point_score cfg0 X26) [0..<26] ! i = (replicate 25 (Num (- (1 / 5))) @ [Num 5]) ! i"
    proof (cases "i < 25")
      case True
      then have "D26 ! i = D26 ! 0" by (simp add: D26_def nth_append)
      then have "point_score cfg0 X26 i = point_score cfg0 X26 0"
        by (intro point_score_row) (simp add: dm26)
      then show ?thesis using True i by (simp add: point_score26_0 nth_append)
    next
      case False
      then have "i = 25" using i by simp
      then show ?thesis by (simp add: point_score26_25 nth_append)
    qed
  qed
  then show ?thesis by (simp add: calculate_decision_score_eq len)
qed

lemma check_array26: "check_array X26 = Inr X26"
  by (simp add: check_array_def X26_def eval_nat_numeral)

lemma fit26:
  "fit cfg0 X26 = Inr \<lparr> decision_scores = replicate 25 (Num (- (1 / 5))) @ [Num 5],
                         labels = replicate 25 0 @ [1], mu = Num 0, sigma = Num 1 \<rparr>"
proof -
  have m: "np_mean (replicate 25 (Num (- (1 / 5))) @ [Num 5]) = Num 0"
    by (simp add: np_mean_def np_sum_def eval_nat_numeral)
  have s: "np_std (replicate 25 (Num (- (1 / 5))) @ [Num 5]) = Num 1"
    by (simp add: np_std_def np_mean_def np_sum_def np_sub_def eval_nat_numeral)
  show ?thesis
    by (simp add: fit_def check_array26 scores26 m s cfg0_sel np_gt_def)
qed

theorem fit_labels_threshold_witness:
  "check_array X26 = Inr X26 \<and>
   replicate 25 (Num (- (1 / 5))) @ [Num 5] = map Num (replicate 25 (- (1 / 5)) @ [5]) \<and>
   fit cfg0 X26 = Inr \<lparr> decision_scores = replicate 25 (Num (- (1 / 5))) @ [Num 5],
                         labels = replicate 25 0 @ [1], mu = Num 0, sigma = Num 1 \<rparr> \<and>
   calculate_decision_score cfg0 X26 = Inr (replicate 25 (Num (- (1 / 5))) @ [Num 5]) \<and>
   fit (cfg0\<lparr>contamination := 2 / 5\<rparr>) X26 =
     Inr \<lparr> decision_scores = replicate 25 (Num (- (1 / 5))) @ [Num 5],
           labels = replicate 25 0 @ [1], mu = Num 0, sigma = Num 1 \<rparr>"
  using fit_labels_threshold [OF check_array26, of cfg0 "2 / 5"] check_array26 fit26 scores26
  by auto

text \<open>
  C1 as stated fails: for the first point of \<open>X24\<close> the scan passes through all six
  critical radii, the guard holds at the radius \<open>1\<close>, and the score returned, the ratio
  at the last radius, is below the ratio observed at the radius \<open>1\<close>.
\<close>

theorem score_is_tested_ratio_counterexample:
  "score_at cfg0 X24 0 = Inr (Num (- (3 / 41) / (sqrt 28 / (41 / 2)))) \<and>
   processed (early_exit cfg0 (dist_matrix X24) 0) (critical_values cfg0 X24 0) =
     critical_values cfg0 X24 0 \<and>
   Num 1 \<in> set (critical_values cfg0 X24 0) \<and>
   guard cfg0 (dist_matrix X24) 0 (Num 1) \<and>
   ratio cfg0 (dist_matrix X24) 0 (Num 1) =
     Num (- (10 / 221) / (sqrt (2100 / 121) / (221 / 11))) \<and>
   - (3 / 41) / (sqrt 28 / (41 / 2)) < - (10 / 221) / (sqrt (2100 / 121) / (221 / 11 :: real))"
proof -
  have "(0::nat) < length X24" by (simp add: X24_def)
  then have "score_at cfg0 X24 0 = Inr (Num (- (3 / 41) / (sqrt 28 / (41 / 2))))"
    by (simp add: score_at_eq point_score24 ratio24_6)
  moreover have "processed (early_exit cfg0 (dist_matrix X24) 0) (critical_values cfg0 X24 0) =
     critical_values cfg0 X24 0"
    by (simp add: cv24 dm24 no_exit24)
  moreover have "Num 1 \<in> set (critical_values cfg0 X24 0)" by (simp add: cv24)
  ultimately show ?thesis
    using guard24(1) ratio24_1 ratio24_less by (simp add: dm24)
qed

theorem score_is_tested_ratio_witness:
  "(0::nat) < length X3 \<and> score_at cfg0 X3 0 = Inr (Num 0) \<and>
   (25::nat) < length X26 \<and>
   early_exit cfg0 (dist_matrix X26) 25 (critical_values cfg0 X26 25 ! 0) \<and>
   score_at cfg0 X26 25 =
     Inr (ratio cfg0 (dist_matrix X26) 25 (critical_values cfg0 X26 25 ! 0)) \<and>
   ratio cfg0 (dist_matrix X26) 25 (critical_values cfg0 X26 25 ! 0) = Num 5 \<and>
   (0::nat) < length X24 \<and>
   guard cfg0 (dist_matrix X24) 0 (critical_values cfg0 X24 0 ! 5) \<and>
   critical_values cfg0 X24 0 ! 5 = Num 6 \<and>
   score_at cfg0 X24 0 =
     Inr (ratio cfg0 (dist_matrix X24) 0 (critical_values cfg0 X24 0 ! 5))"
proof -
  have l3: "(0::nat) < length X3" by (simp add: X3_def)
  have "length X3 < 20" by (simp add: X3_def)
  then have ng: "\<forall>r \<in> set (critical_values cfg0 X3 0). \<not> guard cfg0 (dist_matrix X3) 0 r"
    using guard_false_small l3 by blast
  have s3: "score_at cfg0 X3 0 = Inr (Num 0)"
    using score_is_tested_ratio [OF l3, of cfg0] ng by blast
  have l26: "(25::nat) < length X26" by (simp add: X26_def)
  have i26: "0 < length (critical_values cfg0 X26 25)" by (simp add: cv26_25)
  have e26: "early_exit cfg0 (dist_matrix X26) 25 (critical_values cfg0 X26 25 ! 0)"
    by (simp add: cv26_25 dm26 exit26)
  have f26: "\<forall>j<0. \<not> early_exit cfg0 (dist_matrix X26) 25 (critical_values cfg0 X26 25 ! j)"
    by simp
  have s26: "score_at cfg0 X26 25 =
      Inr (ratio cfg0 (dist_matrix X26) 25 (critical_values cfg0 X26 25 ! 0))"
    using score_is_tested_ratio [OF l26, of cfg0] i26 e26 f26 by blast
  have r26: "ratio cfg0 (dist_matrix X26) 25 (critical_values cfg0 X26 25 ! 0) = Num 5"
    by (simp add: cv26_25 dm26 ratio26)
  have l24: "(0::nat) < length X24" by (simp add: X24_def)
  have i24: "5 < length (critical_values cfg0 X24 0)" by (simp add: cv24)
  have "\<forall>r \<in> set (critical_values cfg0 X24 0). \<not> early_exit cfg0 (dist_matrix X24) 0 r"
    by (simp add: cv24 dm24 no_exit24)
  then have n24: "\<forall>j<length (critical_values cfg0 X24 0).
      \<not> early_exit cfg0 (dist_matrix X24) 0 (critical_values cfg0 X24 0 ! j)"
    by simp
  have g24: "guard cfg0 (dist_matrix X24) 0 (critical_values cfg0 X24 0 ! 5)"
    by (simp add: cv24 dm24 guard24)
  have a24: "\<forall>j<length (critical_values cfg0 X24 0).
      5 < j \<longrightarrow> \<not> guard cfg0 (dist_matrix X24) 0 (critical_values cfg0 X24 0 ! j)"
    by (simp add: cv24)
  have s24: "score_at cfg0 X24 0 =
      Inr (ratio cfg0 (dist_matrix X24) 0 (critical_values cfg0 X24 0 ! 5))"
    using score_is_tested_ratio [OF l24, of cfg0] i24 n24 g24 a24 by blast
  have c24: "critical_values cfg0 X24 0 ! 5 = Num 6" by (simp add: cv24)
  show ?thesis
    using l3 s3 l26 e26 s26 r26 l24 g24 c24 s24 by blast
qed

theorem scan_overwrites_and_stops_witness:
  "(25::nat) < length X26 \<and>
   sorted_wrt sort_le (critical_values cfg0 X26 25) \<and>
   critical_values cfg0 X26 25 = [] @ Num 1 # (replicate 24 (Num 1) @ replicate 25 (Num 2)) \<and>
   early_exit cfg0 (dist_matrix X26) 25 (Num 1) \<and>
   score_at cfg0 X26 25 = Inr (ratio cfg0 (dist_matrix X26) 25 (Num 1)) \<and>
   ratio cfg0 (dist_matrix X26) 25 (Num 1) = Num 5 \<and>
   (0::nat) < length X24 \<and>
   score_at cfg0 X24 0 = Inr (ratio cfg0 (dist_matrix X24) 0 (Num 6))"
proof -
  have l26: "(25::nat) < length X26" by (simp add: X26_def)
  have cv: "critical_values cfg0 X26 25 =
      [] @ Num 1 # (replicate 24 (Num 1) @ replicate 25 (Num 2))"
    by (simp add: cv26_25)
  have ex: "early_exit cfg0 (dist_matrix X26) 25 (Num 1)" by (simp add: dm26 exit26)
  have pre: "\<forall>r' \<in> set []. \<not> early_exit cfg0 (dist_matrix X26) 25 r'" by simp
  have stop: "score_at cfg0 X26 25 = Inr (ratio cfg0 (dist_matrix X26) 25 (Num 1))"
    using scan_overwrites_and_stops [OF l26, of cfg0] cv pre ex by blast
  have l24: "(0::nat) < length X24" by (simp add: X24_def)
  have ne: "\<forall>r \<in> set (critical_values cfg0 X24 0). \<not> early_exit cfg0 (dist_matrix X24) 0 r"
    by (simp add: cv24 dm24 no_exit24)
  have "score_at cfg0 X24 0 =
      Inr (case filter (guard cfg0 (dist_matrix X24) 0) (critical_values cfg0 X24 0) of
             [] \<Rightarrow> Num 0
           | g # gs \<Rightarrow> ratio cfg0 (dist_matrix X24) 0 (last (g # gs)))"
    using scan_overwrites_and_stops [OF l24, of cfg0] ne by blast
  then have "score_at cfg0 X24 0 = Inr (ratio cfg0 (dist_matrix X24) 0 (Num 6))"
    by (simp add: cv24 dm24 guard24)
  moreover have "sorted_wrt sort_le (critical_values cfg0 X26 25)"
    using scan_overwrites_and_stops [OF l26, of cfg0] by blast
  ultimately show ?thesis
    using l26 cv ex stop l24 by (simp add: dm26 ratio26)
qed

text \<open>
  C8, as the code has it: with \<open>alpha\<close> not zero every score is a number or NaN, never
  an infinity, and it is a number when the standard deviation of \<open>n_values\<close> is not zero
  at any tested radius satisfying the guard. The score need not be positive: for the
  first point of \<open>X24\<close> it is negative, its own count at the last radius being above
  \<open>n_hat\<close>.
\<close>

theorem score_number_or_nan:
  assumes "alpha self \<noteq> 0" and "p < length X"
  shows "(\<exists>s. score_at self X p = Inr s \<and> s \<noteq> PInf \<and> s \<noteq> NInf \<and>
            ((\<forall>r \<in> set (critical_values self X p).
                guard self (dist_matrix X) p r \<longrightarrow>
                np_std (of_counts (n_values self (dist_matrix X) p r)) \<noteq> Num 0) \<longrightarrow>
             (\<exists>y. s = Num y))) \<and>
         (\<exists>y. score_at cfg0 X24 0 = Inr (Num y) \<and> y < 0 \<and>
            score_at cfg0 X24 0 = Inr (ratio cfg0 (dist_matrix X24) 0 (Num 6)) \<and>
            np_lt (n_hat cfg0 (dist_matrix X24) 0 (Num 6))
              (Num (real (alpha_count cfg0 (dist_matrix X24) 0 (Num 6)))))"
proof -
  have l24: "(0::nat) < length X24" by (simp add: X24_def)
  have neg: "- (3 / 41) / (sqrt 28 / (41 / 2)) < (0::real)"
    by (simp add: divide_neg_pos)
  have "score_at cfg0 X24 0 = Inr (Num (- (3 / 41) / (sqrt 28 / (41 / 2)))) \<and>
      score_at cfg0 X24 0 = Inr (ratio cfg0 (dist_matrix X24) 0 (Num 6)) \<and>
      np_lt (n_hat cfg0 (dist_matrix X24) 0 (Num 6))
        (Num (real (alpha_count cfg0 (dist_matrix X24) 0 (Num 6))))"
    using l24 by (simp add: score_at_eq point_score24 ratio24_6 dm24 nh24 ac24)
  with neg have ex: "\<exists>y. score_at cfg0 X24 0 = Inr (Num y) \<and> y < 0 \<and>
      score_at cfg0 X24 0 = Inr (ratio cfg0 (dist_matrix X24) 0 (Num 6)) \<and>
      np_lt (n_hat cfg0 (dist_matrix X24) 0 (Num 6))
        (Num (real (alpha_count cfg0 (dist_matrix X24) 0 (Num 6))))"
    by blast
  show ?thesis
    using point_score_num_or_nan [OF assms] ex by (simp add: score_at_eq [OF assms(2)])
qed

theorem score_number_or_nan_witness:
  "alpha cfg0 \<noteq> 0 \<and> (0::nat) < length X24 \<and>
   (\<exists>s y. score_at cfg0 X24 0 = Inr s \<and> s \<noteq> PInf \<and> s \<noteq> NInf \<and> s = Num y)"
proof -
  have a: "alpha cfg0 \<noteq> 0" by (simp add: cfg0_sel)
  have l24: "(0::nat) < length X24" by (simp add: X24_def)
  have "\<forall>r \<in> set (critical_values cfg0 X24 0).
      guard cfg0 (dist_matrix X24) 0 r \<longrightarrow>
      np_std (of_counts (n_values cfg0 (dist_matrix X24) 0 r)) \<noteq> Num 0"
    by (simp add: cv24 dm24 sd24)
  then show ?thesis
    using score_number_or_nan [OF a l24] a l24 by blast
qed

text \<open>
  C8 as stated fails: the score of the first point of \<open>X40\<close>, two groups of twenty
  coinciding points, is NaN, the quotient of \<open>mdef = 0\<close> by \<open>sigma_mdef = 0\<close>.
\<close>

theorem score_number_or_nan_counterexample:
  "score_at cfg0 X40 0 = Inr NaN \<and>
   guard cfg0 (dist_matrix X40) 0 (Num 2) \<and>
   mdef cfg0 (dist_matrix X40) 0 (Num 2) = Num 0 \<and>
   sigma_mdef cfg0 (dist_matrix X40) 0 (Num 2) = Num 0"
proof -
  have "(0::nat) < length X40" by (simp add: X40_def)
  then show ?thesis
    by (simp add: score_at_eq point_score40 dm40 guard40 md40 sg40)
qed

end
